theory Spec2Isabelle
  imports Main "HOL-Library.Word"
begin

unbundle bit_operations_syntax

section \<open>Bytes\<close>

type_synonym byte = "8 word"

section \<open>Payload masking\<close>

text \<open>
  \<^verbatim>\<open>maskData(mask_key, data)\<close> (websocket.go, lines 201-205) walks \<^verbatim>\<open>data\<close> from index 0
  and XORs every byte in place with \<^verbatim>\<open>mask_key[i%4]\<close>. Go panics when the index
  \<^verbatim>\<open>i%4\<close> is outside \<^verbatim>\<open>mask_key\<close>; the model returns \<open>None\<close> there. The result
  is the new content of the slice \<^verbatim>\<open>data\<close>.
\<close>

fun mask_from :: "nat \<Rightarrow> byte list \<Rightarrow> byte list \<Rightarrow> byte list option" where
  "mask_from i mask_key [] = Some []"
| "mask_from i mask_key (d # ds) =
     (if i mod 4 < length mask_key
      then (case mask_from (Suc i) mask_key ds of
              None \<Rightarrow> None
            | Some ds' \<Rightarrow> Some ((d XOR mask_key ! (i mod 4)) # ds'))
      else None)"

definition maskData :: "byte list \<Rightarrow> byte list \<Rightarrow> byte list option" where
  "maskData mask_key data = mask_from 0 mask_key data"


section \<open>Library functions used by the handshake\<close>

text \<open>
  The handshake calls \<^verbatim>\<open>crypto/sha1\<close>, \<^verbatim>\<open>encoding/base64\<close> and \<^verbatim>\<open>strings.Contains\<close>
  of the Go standard library. They are written out here after FIPS 180-4 and RFC 4648,
  on bytes as natural numbers below 256 and 32-bit words as natural numbers below
  \<open>2 ^ 32\<close> with the wrap-around written out.
\<close>

definition add32 :: "nat \<Rightarrow> nat \<Rightarrow> nat" where
  "add32 a b = (a + b) mod 4294967296"

definition rotl32 :: "nat \<Rightarrow> nat \<Rightarrow> nat" where
  "rotl32 n x = (x * 2 ^ n) mod 4294967296 OR x div 2 ^ (32 - n)"

definition not32 :: "nat \<Rightarrow> nat" where
  "not32 x = x XOR 4294967295"

fun be_words :: "nat list \<Rightarrow> nat list" where
  "be_words (a # b # c # d # r) = (a * 16777216 + b * 65536 + c * 256 + d) # be_words r"
| "be_words _ = []"

definition be_bytes32 :: "nat \<Rightarrow> nat list" where
  "be_bytes32 w = [w div 16777216 mod 256, w div 65536 mod 256, w div 256 mod 256, w mod 256]"

definition be_bytes64 :: "nat \<Rightarrow> nat list" where
  "be_bytes64 n = be_bytes32 (n div 4294967296 mod 4294967296) @ be_bytes32 (n mod 4294967296)"

fun zeros :: "nat \<Rightarrow> nat list" where
  "zeros n = (if n = 0 then [] else 0 # zeros (n - 1))"

declare zeros.simps [simp del]

text \<open>Padding: the byte 0x80, zeros up to 56 modulo 64, the bit length on 8 bytes.\<close>

definition sha1_pad :: "nat list \<Rightarrow> nat list" where
  "sha1_pad m =
     m @ [128] @ zeros ((119 - length m mod 64) mod 64) @ be_bytes64 (8 * length m)"

text \<open>
  The message schedule, kept in reverse: the head of \<open>ws\<close> is \<open>W(t-1)\<close>, and
  \<open>W(t) = ROTL 1 (W(t-3) XOR W(t-8) XOR W(t-14) XOR W(t-16))\<close>.
\<close>

fun schedule :: "nat \<Rightarrow> nat list \<Rightarrow> nat list" where
  "schedule n ws =
     (if n = 0 then ws
      else schedule (n - 1) (rotl32 1 (ws ! 2 XOR ws ! 7 XOR ws ! 13 XOR ws ! 15) # ws))"

declare schedule.simps [simp del]

definition sha1_f :: "nat \<Rightarrow> nat \<Rightarrow> nat \<Rightarrow> nat \<Rightarrow> nat" where
  "sha1_f t b c d =
     (if t < 20 then (b AND c) OR (not32 b AND d)
      else if t < 40 then b XOR c XOR d
      else if t < 60 then (b AND c) OR (b AND d) OR (c AND d)
      else b XOR c XOR d)"

definition sha1_k :: "nat \<Rightarrow> nat" where
  "sha1_k t =
     (if t < 20 then 0x5A827999 else if t < 40 then 0x6ED9EBA1
      else if t < 60 then 0x8F1BBCDC else 0xCA62C1D6)"

type_synonym sha1_state = "nat \<times> nat \<times> nat \<times> nat \<times> nat"

fun rounds :: "nat \<Rightarrow> nat list \<Rightarrow> sha1_state \<Rightarrow> sha1_state" where
  "rounds t [] h = h"
| "rounds t (w # ws) (a, b, c, d, e) =
     rounds (t + 1) ws
       (add32 (add32 (add32 (add32 (rotl32 5 a) (sha1_f t b c d)) e) (sha1_k t)) w,
        a, rotl32 30 b, c, d)"

definition sha1_block :: "sha1_state \<Rightarrow> nat list \<Rightarrow> sha1_state" where
  "sha1_block h blk =
     (case h of (h0, h1, h2, h3, h4) \<Rightarrow>
        (case rounds 0 (rev (schedule 64 (rev (be_words blk)))) h of
           (a, b, c, d, e) \<Rightarrow> (add32 h0 a, add32 h1 b, add32 h2 c, add32 h3 d, add32 h4 e)))"

fun sha1_blocks :: "sha1_state \<Rightarrow> nat list \<Rightarrow> sha1_state" where
  "sha1_blocks h m =
     (if length m < 64 then h else sha1_blocks (sha1_block h (take 64 m)) (drop 64 m))"

declare sha1_blocks.simps [simp del]

definition sha1 :: "nat list \<Rightarrow> nat list" where
  "sha1 m =
     (case sha1_blocks (0x67452301, 0xEFCDAB89, 0x98BADCFE, 0x10325476, 0xC3D2E1F0)
             (sha1_pad m) of
        (a, b, c, d, e) \<Rightarrow>
          be_bytes32 a @ be_bytes32 b @ be_bytes32 c @ be_bytes32 d @ be_bytes32 e)"

definition base64_alphabet :: string where
  "base64_alphabet = ''ABCDEFGHIJKLMNOPQRSTUVWXYZabcdefghijklmnopqrstuvwxyz0123456789+/''"

text \<open>\<^verbatim>\<open>base64.StdEncoding.EncodeToString\<close>: the standard alphabet, padded with \<open>=\<close>.\<close>

fun base64 :: "nat list \<Rightarrow> string" where
  "base64 [] = []"
| "base64 [a] =
     [base64_alphabet ! (a div 4), base64_alphabet ! (a mod 4 * 16), CHR ''='', CHR ''='']"
| "base64 [a, b] =
     [base64_alphabet ! (a div 4), base64_alphabet ! (a mod 4 * 16 + b div 16),
      base64_alphabet ! (b mod 16 * 4), CHR ''='']"
| "base64 (a # b # c # r) =
     [base64_alphabet ! (a div 4), base64_alphabet ! (a mod 4 * 16 + b div 16),
      base64_alphabet ! (b mod 16 * 4 + c div 64), base64_alphabet ! (c mod 64)] @ base64 r"

text \<open>\<^verbatim>\<open>strings.Contains(s, substr)\<close>.\<close>

fun strings_Contains :: "string \<Rightarrow> string \<Rightarrow> bool" where
  "strings_Contains [] substr = (substr = [])"
| "strings_Contains (c # s) substr =
     (take (length substr) (c # s) = substr \<or> strings_Contains s substr)"

section \<open>The connection and its buffered reader and writer\<close>

text \<open>
  \<^verbatim>\<open>ws.rw\<close> is a \<^verbatim>\<open>*bufio.ReadWriter\<close> over \<^verbatim>\<open>ws.conn\<close>, both obtained from
  \<^verbatim>\<open>Hijack\<close>. The model keeps them in one record:
  \<^item> \<open>rbuf\<close>: the bytes the buffered reader holds and has not handed out yet;
  \<^item> \<open>rpending\<close>: what the following reads of the connection return, one chunk for each
    read; when no chunk is left the read fails (end of stream);
  \<^item> \<open>wbuf\<close>: bytes written to the buffered writer and not flushed yet;
  \<^item> \<open>werr\<close>: the sticky error of the buffered writer;
  \<^item> \<open>sent\<close>: the bytes the connection has accepted, in order;
  \<^item> \<open>broken\<close>: writes to the connection fail (the peer is gone);
  \<^item> \<open>conn_closed\<close>: \<^verbatim>\<open>conn.Close()\<close> has been called.
  The size of the two buffers is not modelled: a chunk is whatever one read of the
  connection delivered, and the writer hands its bytes to the connection at \<^verbatim>\<open>Flush\<close>.
\<close>

record transport =
  rbuf :: "byte list"
  rpending :: "byte list list"
  wbuf :: "byte list"
  werr :: bool
  sent :: "byte list"
  broken :: bool
  conn_closed :: bool

text \<open>
  \<^verbatim>\<open>ReadByte\<close> hands out a buffered byte; on an empty buffer it reads the connection
  until a read returns at least one byte. \<open>None\<close> is the error return.
\<close>

fun fill_byte :: "byte list list \<Rightarrow> (byte \<times> byte list \<times> byte list list) option" where
  "fill_byte [] = None"
| "fill_byte ([] # cs) = fill_byte cs"
| "fill_byte ((b # bs) # cs) = Some (b, bs, cs)"

definition ReadByte :: "transport \<Rightarrow> byte option \<times> transport" where
  "ReadByte s =
     (case rbuf s of
        b # bs \<Rightarrow> (Some b, s\<lparr>rbuf := bs\<rparr>)
      | [] \<Rightarrow>
          if conn_closed s then (None, s)
          else (case fill_byte (rpending s) of
                  None \<Rightarrow> (None, s\<lparr>rpending := []\<rparr>)
                | Some (b, bs, cs) \<Rightarrow> (Some b, s\<lparr>rbuf := bs, rpending := cs\<rparr>)))"

text \<open>
  \<^verbatim>\<open>Read(p)\<close> with \<open>n = len(p)\<close>: copies what is buffered, at most \<open>n\<close> bytes; on an
  empty buffer it reads the connection once, and hands out at most \<open>n\<close> bytes of that
  chunk. It never waits for \<open>n\<close> bytes. The result is the list of the bytes read
  (Go's count is its length), \<open>None\<close> the error return.
\<close>

definition Read :: "nat \<Rightarrow> transport \<Rightarrow> byte list option \<times> transport" where
  "Read n s =
     (if n = 0 then (Some [], s)
      else if rbuf s \<noteq> [] then (Some (take n (rbuf s)), s\<lparr>rbuf := drop n (rbuf s)\<rparr>)
      else if conn_closed s then (None, s)
      else (case rpending s of
              [] \<Rightarrow> (None, s)
            | c # cs \<Rightarrow> (Some (take n c), s\<lparr>rbuf := drop n c, rpending := cs\<rparr>)))"

text \<open>\<^verbatim>\<open>Write\<close> and \<^verbatim>\<open>Flush\<close> of the buffered writer; \<open>True\<close> is the nil error.\<close>

definition Write :: "byte list \<Rightarrow> transport \<Rightarrow> bool \<times> transport" where
  "Write p s = (if werr s then (False, s) else (True, s\<lparr>wbuf := wbuf s @ p\<rparr>))"

definition Flush :: "transport \<Rightarrow> bool \<times> transport" where
  "Flush s =
     (if werr s then (False, s)
      else if wbuf s = [] then (True, s)
      else if broken s \<or> conn_closed s then (False, s\<lparr>werr := True\<rparr>)
      else (True, s\<lparr>sent := sent s @ wbuf s, wbuf := []\<rparr>))"

definition bytes_of_string :: "string \<Rightarrow> byte list" where
  "bytes_of_string str = map (\<lambda>c. of_nat (of_char c)) str"

text \<open>\<^verbatim>\<open>fmt.Fprintf(ws.rw, ...)\<close>: one \<^verbatim>\<open>Write\<close> of the formatted text.\<close>

definition Fprintf :: "string \<Rightarrow> transport \<Rightarrow> bool \<times> transport" where
  "Fprintf str s = Write (bytes_of_string str) s"


section \<open>Errors, results and recorded calls\<close>

text \<open>
  One constructor for each place where the source builds or passes on an error.
  \<open>StreamError\<close> stands for the errors of the buffered reader/writer and of the
  connection, which the source returns as they come.
\<close>

datatype error =
    InvalidMethod string
  | HttpVersionTooLow
  | InvalidUpgradeHeader string
  | InvalidConnectionHeader string
  | InvalidSecFetchMode string
  | UnsupportedVersion string
  | UnsupportedProtocol string
  | MissingOrigin
  | MissingKey
  | MaxWebSocketsReached
  | HijackError
  | StreamError
  | WebSocketIsClosed
  | FragmentedFrames
  | RSVBitsSet
  | UnsupportedOpcode byte
  | ExtendedLengthShortRead
  | PayloadTooLarge int
  | MaskKeyShortRead
  | InvalidOpcode byte

text \<open>
  A call returns a value, returns an error, or panics (a failed type assertion, a
  negative length given to \<^verbatim>\<open>make\<close>); a panic is not an error return, and the read
  loop does not handle it.
\<close>

datatype 'a result = Ok 'a | Err error | Panic

text \<open>
  The calls the library makes on its collaborators, in order: the registry
  (\<^verbatim>\<open>sync.Map\<close>), \<^verbatim>\<open>Add\<close> on the admission counter, \<^verbatim>\<open>conn.Close\<close>, and the
  handlers the application registered. A handler is application code; the model
  records that it was called and with what.
\<close>

datatype call =
    RegistryStore "64 word"
  | RegistryDelete "64 word"
  | CounterAdd int
  | ConnClose "64 word"
  | BinaryHandlerCall "64 word" "byte list"
  | TextHandlerCall "64 word" "byte list"
  | ClosedHandlerCall "64 word"

section \<open>Data model\<close>

definition ERROR_CODE_NORMAL_CLOSURE :: "16 word" where
  "ERROR_CODE_NORMAL_CLOSURE = 1000"

definition OPCODE_CONTINUATION :: byte where "OPCODE_CONTINUATION = 0x0"
definition OPCODE_TEXT :: byte where "OPCODE_TEXT = 0x1"
definition OPCODE_BINARY :: byte where "OPCODE_BINARY = 0x2"
definition OPCODE_CLOSE :: byte where "OPCODE_CLOSE = 0x8"
definition OPCODE_PING :: byte where "OPCODE_PING = 0x9"
definition OPCODE_PONG :: byte where "OPCODE_PONG = 0xA"

text \<open>
  \<^verbatim>\<open>type WebSocket struct\<close>. \<open>rw\<close> holds \<^verbatim>\<open>rw\<close> and \<^verbatim>\<open>conn\<close>; a handler field is
  \<open>True\<close> when the handler is not nil.
\<close>

record WebSocket =
  ID :: "64 word"
  rw :: transport
  protocol :: string
  extensions :: string
  client_key :: string
  is_open :: bool
  ReceiveBinaryHandler :: bool
  ReceiveTextHandler :: bool
  ClosedHandler :: bool

text \<open>
  The package-level variables. The registry maps an id to the connection stored
  under it (the library stores and deletes, and never loads). \<open>trace\<close> is the list of
  recorded calls.
\<close>

record globals =
  global_id_gen :: "64 word"
  global_websocket_count :: "32 word"
  global_websockets :: "64 word \<rightharpoonup> WebSocket"
  global_frame_max_size :: "64 word"
  global_max_websockets :: "32 word"
  trace :: "call list"

definition initial_globals :: globals where
  "initial_globals =
     \<lparr>global_id_gen = 0, global_websocket_count = 0, global_websockets = Map.empty,
      global_frame_max_size = 1024 * 1024, global_max_websockets = 1000, trace = []\<rparr>"

text \<open>
  What \<^verbatim>\<open>Upgrade\<close> reads of the \<^verbatim>\<open>*http.Request\<close>: \<open>Header r k\<close> is
  \<^verbatim>\<open>r.Header.Get(k)\<close>, the empty string when the header is absent. Of the
  \<^verbatim>\<open>http.ResponseWriter\<close> only the hijack matters: it is not a \<^verbatim>\<open>Hijacker\<close> (the type
  assertion panics), or \<^verbatim>\<open>Hijack\<close> fails, or it hands over the connection.
\<close>

record request =
  Method :: string
  ProtoMajor :: int
  ProtoMinor :: int
  Header :: "string \<Rightarrow> string"

datatype response_writer = NotHijacker | HijackFails | Hijacks transport

definition ProtoAtLeast :: "request \<Rightarrow> int \<Rightarrow> int \<Rightarrow> bool" where
  "ProtoAtLeast r major minor =
     (ProtoMajor r > major \<or> ProtoMajor r = major \<and> ProtoMinor r \<ge> minor)"

section \<open>Sending a frame\<close>

text \<open>
  The header that \<^verbatim>\<open>sendFrame\<close> builds (lines 348-389): \<open>b1\<close> with FIN set, \<open>b2\<close> with
  the mask bit and the length tier, the extended length in big endian, and the mask key
  copied over the last four bytes. \<open>payload_len\<close> is \<^verbatim>\<open>len(payload)\<close>.
\<close>

definition frame_header :: "byte \<Rightarrow> byte list \<Rightarrow> nat \<Rightarrow> byte list" where
  "frame_header opcode mask_key payload_len =
     (let fin = (0x80 :: byte);
          header_length = (2 :: nat);
          b1 = fin OR opcode;
          masked = (if length mask_key = 4 then 0x80 else (0x00 :: byte));
          header_length = (if length mask_key = 4 then header_length + 4 else header_length);
          b2 = (if payload_len \<le> 125 then masked OR of_nat payload_len
                else if payload_len \<le> 65535 then masked OR 126
                else masked OR 127);
          header_length = (if payload_len \<le> 125 then header_length
                           else if payload_len \<le> 65535 then header_length + 2
                           else header_length + 8);
          header = (replicate header_length 0)[0 := b1, 1 := b2];
          header =
            (if b2 AND 0x7F = 126 then
               header[2 := of_nat (drop_bit 8 payload_len AND 0xFF),
                      3 := of_nat (payload_len AND 0xFF)]
             else if b2 AND 0x7F = 127 then
               header[2 := of_nat (drop_bit 56 payload_len AND 0xFF),
                      3 := of_nat (drop_bit 48 payload_len AND 0xFF),
                      4 := of_nat (drop_bit 40 payload_len AND 0xFF),
                      5 := of_nat (drop_bit 32 payload_len AND 0xFF),
                      6 := of_nat (drop_bit 24 payload_len AND 0xFF),
                      7 := of_nat (drop_bit 16 payload_len AND 0xFF),
                      8 := of_nat (drop_bit 8 payload_len AND 0xFF),
                      9 := of_nat (payload_len AND 0xFF)]
             else header)
      in if length mask_key = 4 then take (header_length - 4) header @ mask_key else header)"

text \<open>
  \<^verbatim>\<open>sendFrame\<close> (lines 346-405). A nil mask key is the empty list. With a 4-byte key
  the payload slice is masked in place, so the third component of the result is the
  content of the caller's slice after the call. \<^verbatim>\<open>maskData\<close> cannot panic here, the
  key has four bytes.
\<close>

definition sendFrame ::
  "WebSocket \<Rightarrow> byte \<Rightarrow> byte list \<Rightarrow> byte list \<Rightarrow> error option \<times> WebSocket \<times> byte list" where
  "sendFrame ws opcode mask_key payload =
     (let payload_len = length payload in
      if opcode > 0x0F then (Some (InvalidOpcode opcode), ws, payload)
      else
        let payload' =
              (if length mask_key = 4
               then (case maskData mask_key payload of Some p \<Rightarrow> p | None \<Rightarrow> payload)
               else payload);
            header = frame_header opcode mask_key payload_len
        in (case Write header (rw ws) of
              (False, s1) \<Rightarrow> (Some StreamError, ws\<lparr>rw := s1\<rparr>, payload')
            | (True, s1) \<Rightarrow>
                (case Write payload' s1 of
                   (False, s2) \<Rightarrow> (Some StreamError, ws\<lparr>rw := s2\<rparr>, payload')
                 | (True, s2) \<Rightarrow>
                     (case Flush s2 of
                        (False, s3) \<Rightarrow> (Some StreamError, ws\<lparr>rw := s3\<rparr>, payload')
                      | (True, s3) \<Rightarrow> (None, ws\<lparr>rw := s3\<rparr>, payload')))))"

definition SendBinary :: "WebSocket \<Rightarrow> byte list \<Rightarrow> error option \<times> WebSocket \<times> byte list" where
  "SendBinary ws message = sendFrame ws OPCODE_BINARY [] message"

definition SendText :: "WebSocket \<Rightarrow> byte list \<Rightarrow> error option \<times> WebSocket \<times> byte list" where
  "SendText ws message = sendFrame ws OPCODE_TEXT [] message"

definition makeStatusCodeBytes :: "16 word \<Rightarrow> byte list" where
  "makeStatusCodeBytes code = [ucast (drop_bit 8 code), ucast code]"

section \<open>Closing a connection\<close>

text \<open>\<^verbatim>\<open>closeWebSocket\<close> (lines 109-120); the result of \<^verbatim>\<open>sendFrame\<close> is dropped.\<close>

definition closeWebSocket :: "WebSocket \<Rightarrow> byte list \<Rightarrow> globals \<Rightarrow> WebSocket \<times> globals" where
  "closeWebSocket ws data g =
     (if is_open ws then
        let ws1 = ws\<lparr>is_open := False\<rparr>;
            g1 = g\<lparr>global_websockets := (global_websockets g)(ID ws1 := None),
                   trace := trace g @ [RegistryDelete (ID ws1)]\<rparr>;
            ws2 = fst (snd (sendFrame ws1 OPCODE_CLOSE [] data));
            ws3 = ws2\<lparr>rw := (rw ws2)\<lparr>conn_closed := True\<rparr>\<rparr>;
            g2 = g1\<lparr>trace := trace g1 @ [ConnClose (ID ws3)]\<rparr>;
            g3 = g2\<lparr>global_websocket_count := global_websocket_count g2 - 1,
                    trace := trace g2 @ [CounterAdd (- 1)]\<rparr>;
            g4 = (if ClosedHandler ws3
                  then g3\<lparr>trace := trace g3 @ [ClosedHandlerCall (ID ws3)]\<rparr>
                  else g3)
        in (ws3, g4)
      else (ws, g))"

section \<open>Admission\<close>

text \<open>
  \<^verbatim>\<open>incrementGlobalWebsocketCount\<close> (lines 189-199): load the counter, give up when it
  is at or above the maximum, else compare-and-swap it to \<open>count + 1\<close>, and start again
  when the swap fails. Other goroutines can change the counter between the load and the
  swap, and again before the next load. \<open>others\<close> lists, for each round of the loop, the
  value they have left in the counter when the swap runs and the value they have left
  when the next load runs; when the list is used up no one interferes any more. The
  comparison is the signed one of \<^verbatim>\<open>int32\<close>.
\<close>

fun incrementGlobalWebsocketCount ::
  "(32 word \<times> 32 word) list \<Rightarrow> globals \<Rightarrow> bool \<times> globals" where
  "incrementGlobalWebsocketCount [] g =
     (let count = global_websocket_count g in
      if global_max_websockets g \<le>s count then (False, g)
      else (True, g\<lparr>global_websocket_count := count + 1\<rparr>))"
| "incrementGlobalWebsocketCount ((at_swap, at_load) # others) g =
     (let count = global_websocket_count g in
      if global_max_websockets g \<le>s count then (False, g)
      else if at_swap = count then (True, g\<lparr>global_websocket_count := count + 1\<rparr>)
      else incrementGlobalWebsocketCount others (g\<lparr>global_websocket_count := at_load\<rparr>))"

section \<open>The handshake\<close>

definition validateProtocolHeader :: "string \<Rightarrow> error + string" where
  "validateProtocolHeader v = (if length v > 0 then Inl (UnsupportedProtocol v) else Inr [])"

definition validateExtensionsHeader :: "string \<Rightarrow> error + string" where
  "validateExtensionsHeader v = Inr []"

text \<open>
  \<^verbatim>\<open>makeWebSocket\<close> (lines 122-187). \<open>others\<close> is the interference on the admission
  counter during this call, \<open>w\<close> the response writer, \<open>r\<close> the request.
\<close>

definition makeWebSocket ::
  "(32 word \<times> 32 word) list \<Rightarrow> response_writer \<Rightarrow> request \<Rightarrow> globals
     \<Rightarrow> WebSocket result \<times> globals" where
  "makeWebSocket others w r g =
     (if Method r \<noteq> ''GET'' then (Err (InvalidMethod (Method r)), g)
      else if ProtoAtLeast r 1 1 = False then (Err HttpVersionTooLow, g)
      else if Header r ''Upgrade'' \<noteq> ''websocket''
        then (Err (InvalidUpgradeHeader (Header r ''Upgrade'')), g)
      else if Header r ''Connection'' \<noteq> ''Upgrade''
        then (Err (InvalidConnectionHeader (Header r ''Connection'')), g)
      else if Header r ''Sec-Fetch-Mode'' \<noteq> ''websocket''
        then (Err (InvalidSecFetchMode (Header r ''Sec-Fetch-Mode'')), g)
      else if \<not> strings_Contains (Header r ''Sec-WebSocket-Version'') ''13''
        then (Err (UnsupportedVersion (Header r ''Sec-WebSocket-Version'')), g)
      else
        (case validateProtocolHeader (Header r ''Sec-WebSocket-Protocol'') of
           Inl err \<Rightarrow> (Err err, g)
         | Inr ws_protocol \<Rightarrow>
        (case validateExtensionsHeader (Header r ''Sec-WebSocket-Extensions'') of
           Inl err \<Rightarrow> (Err err, g)
         | Inr ws_extensions \<Rightarrow>
             if Header r ''Origin'' = [] then (Err MissingOrigin, g)
             else if Header r ''Sec-WebSocket-Key'' = [] then (Err MissingKey, g)
             else
               (case incrementGlobalWebsocketCount others g of
                  (False, g1) \<Rightarrow> (Err MaxWebSocketsReached, g1)
                | (True, g1) \<Rightarrow>
                    (case w of
                       NotHijacker \<Rightarrow> (Panic, g1)
                     | HijackFails \<Rightarrow> (Err HijackError, g1)
                     | Hijacks conn \<Rightarrow>
                         let g2 = g1\<lparr>global_id_gen := global_id_gen g1 + 1\<rparr>;
                             ws = \<lparr>ID = global_id_gen g2, rw = conn,
                                   protocol = ws_protocol, extensions = ws_extensions,
                                   client_key = Header r ''Sec-WebSocket-Key'',
                                   is_open = True, ReceiveBinaryHandler = False,
                                   ReceiveTextHandler = False, ClosedHandler = False\<rparr>;
                             g3 = g2\<lparr>global_websockets := (global_websockets g2)(ID ws \<mapsto> ws),
                                     trace := trace g2 @ [RegistryStore (ID ws)]\<rparr>
                         in (Ok ws, g3))))))"

definition CRLF :: string where
  "CRLF = [CHR 0x0D, CHR 0x0A]"

definition acceptKeyHash :: "string \<Rightarrow> string" where
  "acceptKeyHash key =
     (let acceptKey = key @ ''258EAFA5-E914-47DA-95CA-C5AB0DC85B11''
      in base64 (sha1 (map of_char acceptKey)))"

text \<open>
  \<^verbatim>\<open>sendWebSocketHandshakeResponse\<close> (lines 207-224): the results of \<^verbatim>\<open>Fprintf\<close> are
  dropped, the result of \<^verbatim>\<open>Flush\<close> is returned (\<open>True\<close> for nil).
\<close>

definition sendWebSocketHandshakeResponse :: "WebSocket \<Rightarrow> bool \<times> WebSocket" where
  "sendWebSocketHandshakeResponse ws =
     (let s1 = snd (Fprintf (''HTTP/1.1 101 Switching Protocols'' @ CRLF) (rw ws));
          s2 = snd (Fprintf (''Upgrade: websocket'' @ CRLF) s1);
          s3 = snd (Fprintf (''Connection: Upgrade'' @ CRLF) s2);
          s4 = snd (Fprintf (''Sec-WebSocket-Accept: '' @ acceptKeyHash (client_key ws) @ CRLF) s3);
          s5 = (if protocol ws \<noteq> []
                then snd (Fprintf (''Sec-WebSocket-Protocol: '' @ protocol ws @ CRLF) s4)
                else s4);
          s6 = (if extensions ws \<noteq> []
                then snd (Fprintf (''Sec-WebSocket-Extensions: '' @ extensions ws @ CRLF) s5)
                else s5);
          s7 = snd (Fprintf CRLF s6)
      in (case Flush s7 of (ok, s8) \<Rightarrow> (ok, ws\<lparr>rw := s8\<rparr>)))"

text \<open>
  \<^verbatim>\<open>Upgrade\<close> (lines 72-87). On success the source starts \<^verbatim>\<open>readLoop(ws)\<close> in a
  goroutine of its own and returns \<open>ws\<close>; the loop is \<open>readLoop\<close> below, run on the
  returned connection.
\<close>

definition Upgrade ::
  "(32 word \<times> 32 word) list \<Rightarrow> response_writer \<Rightarrow> request \<Rightarrow> globals
     \<Rightarrow> WebSocket result \<times> globals" where
  "Upgrade others w r g =
     (case makeWebSocket others w r g of
        (Err err, g1) \<Rightarrow> (Err err, g1)
      | (Panic, g1) \<Rightarrow> (Panic, g1)
      | (Ok ws, g1) \<Rightarrow>
          (case sendWebSocketHandshakeResponse ws of
             (False, ws1) \<Rightarrow> (Err StreamError, g1)
           | (True, ws1) \<Rightarrow> (Ok ws1, g1)))"


section \<open>Reading a frame\<close>

text \<open>
  The extended payload length (lines 270-294). \<open>payload_len\<close> is an \<^verbatim>\<open>int64\<close>; the
  bytes are widened without sign and shifted into place. A read that returns fewer
  bytes than asked for is an error here, the source does not read again.
\<close>

definition read_payload_len :: "byte \<Rightarrow> transport \<Rightarrow> (error + 64 word) \<times> transport" where
  "read_payload_len b2 s =
     (let payload_len = (ucast (b2 AND 0x7F) :: 64 word) in
      if payload_len = 126 then
        (case Read 2 s of
           (None, s') \<Rightarrow> (Inl StreamError, s')
         | (Some buffer, s') \<Rightarrow>
             if length buffer \<noteq> 2 then (Inl ExtendedLengthShortRead, s')
             else (Inr (push_bit 8 (ucast (buffer ! 0)) OR ucast (buffer ! 1)), s'))
      else if payload_len = 127 then
        (case Read 8 s of
           (None, s') \<Rightarrow> (Inl StreamError, s')
         | (Some buffer, s') \<Rightarrow>
             if length buffer \<noteq> 8 then (Inl ExtendedLengthShortRead, s')
             else (Inr (push_bit 56 (ucast (buffer ! 0)) OR push_bit 48 (ucast (buffer ! 1)) OR
                        push_bit 40 (ucast (buffer ! 2)) OR push_bit 32 (ucast (buffer ! 3)) OR
                        push_bit 24 (ucast (buffer ! 4)) OR push_bit 16 (ucast (buffer ! 5)) OR
                        push_bit 8 (ucast (buffer ! 6)) OR ucast (buffer ! 7)), s'))
      else (Inr payload_len, s))"

text \<open>The mask key (lines 271, 300-308): four zero bytes unless the frame is masked.\<close>

definition read_mask_key :: "bool \<Rightarrow> transport \<Rightarrow> (error + byte list) \<times> transport" where
  "read_mask_key is_masked s =
     (if is_masked then
        (case Read 4 s of
           (None, s') \<Rightarrow> (Inl StreamError, s')
         | (Some mask_key, s') \<Rightarrow>
             if length mask_key \<noteq> 4 then (Inl MaskKeyShortRead, s')
             else (Inr mask_key, s'))
      else (Inr [0, 0, 0, 0], s))"

text \<open>
  The payload loop (lines 310-318): \<open>remaining\<close> is \<^verbatim>\<open>payload_len - data_len\<close>, the
  length of the slice \<^verbatim>\<open>data[data_len:]\<close> given to \<^verbatim>\<open>Read\<close>. The loop goes on until the
  payload is complete or a read fails.
\<close>

function read_data :: "nat \<Rightarrow> transport \<Rightarrow> byte list option \<times> transport" where
  "read_data remaining s =
     (if remaining = 0 then (Some [], s)
      else (case Read remaining s of
              (None, s') \<Rightarrow> (None, s')
            | (Some bs, s') \<Rightarrow>
                (case read_data (remaining - length bs) s' of
                   (None, s'') \<Rightarrow> (None, s'')
                 | (Some rest, s'') \<Rightarrow> (Some (bs @ rest), s''))))"
  by pat_completeness auto
termination
  apply (relation "measure (\<lambda>(remaining, s). remaining + length (rpending s))")
   apply simp
  apply (auto simp: Read_def split: if_splits list.splits)
  done

declare read_data.simps [simp del]

text \<open>
  What \<^verbatim>\<open>readFrame\<close> does with a frame it has read (lines 324-343). A Continuation
  frame matches no branch.
\<close>

definition dispatch :: "byte \<Rightarrow> byte list \<Rightarrow> WebSocket \<Rightarrow> globals \<Rightarrow> WebSocket \<times> globals" where
  "dispatch opcode data ws g =
     (if opcode = OPCODE_CLOSE then closeWebSocket ws data g
      else if opcode = OPCODE_PING then (fst (snd (sendFrame ws OPCODE_PONG [] data)), g)
      else if opcode = OPCODE_PONG then (ws, g)
      else if opcode = OPCODE_TEXT then
        (if ReceiveTextHandler ws
         then (ws, g\<lparr>trace := trace g @ [TextHandlerCall (ID ws) data]\<rparr>)
         else (ws, g))
      else if opcode = OPCODE_BINARY then
        (if ReceiveBinaryHandler ws
         then (ws, g\<lparr>trace := trace g @ [BinaryHandlerCall (ID ws) data]\<rparr>)
         else (ws, g))
      else (ws, g))"

text \<open>
  \<^verbatim>\<open>readFrame\<close> (lines 236-344). \<^verbatim>\<open>make([]byte, payload_len)\<close> panics when
  \<open>payload_len\<close> is negative. The text handler gets \<^verbatim>\<open>string(data)\<close>, the same bytes.
\<close>

definition readFrame :: "WebSocket \<Rightarrow> globals \<Rightarrow> unit result \<times> WebSocket \<times> globals" where
  "readFrame ws g =
     (case ReadByte (rw ws) of
        (None, s1) \<Rightarrow> (Err StreamError, ws\<lparr>rw := s1\<rparr>, g)
      | (Some b1, s1) \<Rightarrow>
          if is_open ws = False then (Err WebSocketIsClosed, ws\<lparr>rw := s1\<rparr>, g)
          else if \<not> (b1 AND 0x80 = 0x80) then (Err FragmentedFrames, ws\<lparr>rw := s1\<rparr>, g)
          else if b1 AND 0x40 = 0x40 \<or> b1 AND 0x20 = 0x20 \<or> b1 AND 0x10 = 0x10
            then (Err RSVBitsSet, ws\<lparr>rw := s1\<rparr>, g)
          else
            let opcode = b1 AND 0x0F in
            if \<not> (opcode = OPCODE_CONTINUATION \<or> opcode = OPCODE_TEXT \<or>
                    opcode = OPCODE_BINARY \<or> opcode = OPCODE_CLOSE \<or>
                    opcode = OPCODE_PING \<or> opcode = OPCODE_PONG)
              then (Err (UnsupportedOpcode opcode), ws\<lparr>rw := s1\<rparr>, g)
            else
              (case ReadByte s1 of
                 (None, s2) \<Rightarrow> (Err StreamError, ws\<lparr>rw := s2\<rparr>, g)
               | (Some b2, s2) \<Rightarrow>
                   let is_masked = (b2 AND 0x80 = 0x80) in
                   (case read_payload_len b2 s2 of
                      (Inl err, s3) \<Rightarrow> (Err err, ws\<lparr>rw := s3\<rparr>, g)
                    | (Inr payload_len, s3) \<Rightarrow>
                        if global_frame_max_size g <s payload_len
                          then (Err (PayloadTooLarge (sint payload_len)), ws\<lparr>rw := s3\<rparr>, g)
                        else
                          (case read_mask_key is_masked s3 of
                             (Inl err, s4) \<Rightarrow> (Err err, ws\<lparr>rw := s4\<rparr>, g)
                           | (Inr mask_key, s4) \<Rightarrow>
                               if payload_len <s 0 then (Panic, ws\<lparr>rw := s4\<rparr>, g)
                               else
                                 (case read_data (nat (sint payload_len)) s4 of
                                    (None, s5) \<Rightarrow> (Err StreamError, ws\<lparr>rw := s5\<rparr>, g)
                                  | (Some data, s5) \<Rightarrow>
                                      let data' =
                                            (if is_masked
                                             then (case maskData mask_key data of
                                                     Some d \<Rightarrow> d | None \<Rightarrow> data)
                                             else data)
                                      in (case dispatch opcode data' (ws\<lparr>rw := s5\<rparr>) g of
                                            (ws', g') \<Rightarrow> (Ok (), ws', g')))))))"

section \<open>The read loop\<close>

text \<open>
  What is left to read: the buffered bytes and the chunks still to come. Every frame
  read takes at least its two header bytes, so the loop ends when the input does.
\<close>

definition input_left :: "transport \<Rightarrow> nat" where
  "input_left s = length (rbuf s) + length (concat (rpending s)) + length (rpending s)"

text \<open>
  \<^verbatim>\<open>readLoop\<close> (lines 226-234): read frames until one read returns an error, then
  close with the status code 1000 and return. A panic of \<^verbatim>\<open>readFrame\<close> goes through.
\<close>

function readLoop :: "WebSocket \<Rightarrow> globals \<Rightarrow> unit result \<times> WebSocket \<times> globals" where
  "readLoop ws g =
     (case readFrame ws g of
        (Ok u, ws1, g1) \<Rightarrow> readLoop ws1 g1
      | (Err err, ws1, g1) \<Rightarrow>
          (case closeWebSocket ws1 (makeStatusCodeBytes ERROR_CODE_NORMAL_CLOSURE) g1 of
             (ws2, g2) \<Rightarrow> (Ok (), ws2, g2))
      | (Panic, ws1, g1) \<Rightarrow> (Panic, ws1, g1))"
  by pat_completeness auto
termination
proof -
  have fill: "fill_byte cs = Some (b, bs, cs') \<Longrightarrow>
      length bs + length (concat cs') + length cs' < length (concat cs) + length cs"
    for cs :: "byte list list" and b bs cs'
    by (induction cs rule: fill_byte.induct) auto
  have rb: "ReadByte s = (Some b, s') \<Longrightarrow> input_left s' < input_left s" for s b s'
    by (auto simp: ReadByte_def input_left_def split: list.splits if_splits option.splits
          dest: fill)
  have rd: "Read n s = (Some bs, s') \<Longrightarrow> input_left s' \<le> input_left s" for n s bs s'
    by (auto simp: Read_def input_left_def split: list.splits if_splits)
  have rdata: "read_data n s = (Some d, s') \<Longrightarrow> input_left s' \<le> input_left s" for n s d s'
  proof (induction n s arbitrary: d s' rule: read_data.induct)
    case (1 remaining s)
    show ?case
    proof (cases "remaining = 0")
      case True
      with "1.prems" show ?thesis by (simp add: read_data.simps)
    next
      case False
      from "1.prems" False obtain bs s1 rest where
        r: "Read remaining s = (Some bs, s1)" and
        rr: "read_data (remaining - length bs) s1 = (Some rest, s')"
        by (auto simp: read_data.simps [of remaining s] split: prod.splits option.splits)
      from "1.IH" [OF False r [symmetric] refl rr] rd [OF r] show ?thesis by simp
    qed
  qed
  have rpl: "read_payload_len b2 s = (Inr v, s') \<Longrightarrow> input_left s' \<le> input_left s"
    for b2 s v s'
    by (auto simp: read_payload_len_def Let_def split: if_splits prod.splits option.splits
          dest: rd)
  have rmk: "read_mask_key m s = (Inr v, s') \<Longrightarrow> input_left s' \<le> input_left s"
    for m s v s'
    by (auto simp: read_mask_key_def split: if_splits prod.splits option.splits dest: rd)
  have sf: "input_left (rw (fst (snd (sendFrame ws op k p)))) = input_left (rw ws)"
    for ws op k p
    by (auto simp: sendFrame_def Let_def Write_def Flush_def input_left_def
          split: prod.splits if_splits)
  have cl: "input_left (rw (fst (closeWebSocket ws d g))) = input_left (rw ws)" for ws d g
  proof -
    have "input_left (rw (fst (snd (sendFrame (ws\<lparr>is_open := False\<rparr>) OPCODE_CLOSE [] d))))
            = input_left (rw ws)"
      using sf [of "ws\<lparr>is_open := False\<rparr>"] by simp
    then show ?thesis
      by (simp add: closeWebSocket_def Let_def input_left_def)
  qed
  have dp: "input_left (rw (fst (dispatch op d ws g))) = input_left (rw ws)" for op d ws g
    by (simp add: dispatch_def cl sf)
  have key: "input_left (rw ws') < input_left (rw ws)"
    if rf: "readFrame ws g = (Ok (), ws', g')" for ws g ws' g'
  proof -
    from rf obtain b1 s1 b2 s2 pl s3 mk s4 d s5 op d' where
      1: "ReadByte (rw ws) = (Some b1, s1)" and 2: "ReadByte s1 = (Some b2, s2)" and
      3: "read_payload_len b2 s2 = (Inr pl, s3)" and
      4: "read_mask_key (b2 AND 0x80 = 0x80) s3 = (Inr mk, s4)" and
      5: "read_data (nat (sint pl)) s4 = (Some d, s5)" and
      6: "dispatch op d' (ws\<lparr>rw := s5\<rparr>) g = (ws', g')"
      by (auto simp: readFrame_def Let_def
            split: prod.splits option.splits if_splits sum.splits)
    from dp [of op d' "ws\<lparr>rw := s5\<rparr>" g] 6 have "input_left (rw ws') = input_left s5"
      by simp
    with rb [OF 1] rb [OF 2] rpl [OF 3] rmk [OF 4] rdata [OF 5] show ?thesis by simp
  qed
  show ?thesis
    apply (relation "measure (\<lambda>(ws, g). input_left (rw ws))")
     apply simp
    apply (clarsimp simp: key [OF sym])
    done
qed

declare readLoop.simps [simp del]

section \<open>Frames on the wire\<close>

text \<open>
  Names for the parts of the header that \<open>frame_header\<close> builds, and for the bytes
  that \<open>sendFrame\<close> writes: the header, then the payload, masked when a 4-byte key is
  given. \<open>valid_opcode\<close> is the test of lines 255-261.
\<close>

definition mask_bit :: "byte list \<Rightarrow> byte" where
  "mask_bit mask_key = (if length mask_key = 4 then 0x80 else 0x00)"

definition length_code :: "nat \<Rightarrow> byte" where
  "length_code n = (if n \<le> 125 then of_nat n else if n \<le> 65535 then 126 else 127)"

definition extended_length :: "nat \<Rightarrow> byte list" where
  "extended_length n =
     (if n \<le> 125 then []
      else if n \<le> 65535 then [of_nat (drop_bit 8 n AND 0xFF), of_nat (n AND 0xFF)]
      else [of_nat (drop_bit 56 n AND 0xFF), of_nat (drop_bit 48 n AND 0xFF),
            of_nat (drop_bit 40 n AND 0xFF), of_nat (drop_bit 32 n AND 0xFF),
            of_nat (drop_bit 24 n AND 0xFF), of_nat (drop_bit 16 n AND 0xFF),
            of_nat (drop_bit 8 n AND 0xFF), of_nat (n AND 0xFF)])"

definition masked_payload :: "byte list \<Rightarrow> byte list \<Rightarrow> byte list" where
  "masked_payload mask_key payload =
     (if length mask_key = 4
      then (case maskData mask_key payload of Some p \<Rightarrow> p | None \<Rightarrow> payload)
      else payload)"

definition frame_bytes :: "byte \<Rightarrow> byte list \<Rightarrow> byte list \<Rightarrow> byte list" where
  "frame_bytes opcode mask_key payload =
     frame_header opcode mask_key (length payload) @ masked_payload mask_key payload"

definition valid_opcode :: "byte \<Rightarrow> bool" where
  "valid_opcode opcode \<longleftrightarrow>
     opcode = OPCODE_CONTINUATION \<or> opcode = OPCODE_TEXT \<or> opcode = OPCODE_BINARY \<or>
     opcode = OPCODE_CLOSE \<or> opcode = OPCODE_PING \<or> opcode = OPCODE_PONG"

text \<open>
  \<open>arrives s c cs\<close>: the next bytes the reader hands out are the chunk \<open>c\<close>, already
  buffered or the next one to come from the connection, and the chunks \<open>cs\<close> follow.
  \<open>healthy s\<close>: the writer has no error and the connection takes writes.
\<close>

definition arrives :: "transport \<Rightarrow> byte list \<Rightarrow> byte list list \<Rightarrow> bool" where
  "arrives s c cs \<longleftrightarrow>
     c \<noteq> [] \<and> (rbuf s = c \<and> rpending s = cs \<or> rbuf s = [] \<and> rpending s = c # cs)"

definition healthy :: "transport \<Rightarrow> bool" where
  "healthy s \<longleftrightarrow> \<not> werr s \<and> \<not> broken s \<and> \<not> conn_closed s"

section \<open>Example values\<close>

text \<open>
  A connection that is open, with all three handlers registered, whose peer sends the
  given chunks; used to run the definitions on concrete inputs.
\<close>

definition example_conn :: "byte list list \<Rightarrow> transport" where
  "example_conn chunks =
     \<lparr>rbuf = [], rpending = chunks, wbuf = [], werr = False, sent = [], broken = False,
      conn_closed = False\<rparr>"

definition example_ws :: "byte list list \<Rightarrow> WebSocket" where
  "example_ws chunks =
     \<lparr>ID = 1, rw = example_conn chunks, protocol = [], extensions = [],
      client_key = ''dGhlIHNhbXBsZSBub25jZQ=='', is_open = True,
      ReceiveBinaryHandler = True, ReceiveTextHandler = True, ClosedHandler = True\<rparr>"

text \<open>
  A request that passes every check of \<^verbatim>\<open>makeWebSocket\<close>, with the sample key of
  RFC 6455.
\<close>

definition example_request :: request where
  "example_request =
     \<lparr>Method = ''GET'', ProtoMajor = 1, ProtoMinor = 1,
      Header = (\<lambda>k. if k = ''Upgrade'' then ''websocket''
                     else if k = ''Connection'' then ''Upgrade''
                     else if k = ''Sec-Fetch-Mode'' then ''websocket''
                     else if k = ''Sec-WebSocket-Version'' then ''13''
                     else if k = ''Origin'' then ''http://localhost:8080''
                     else if k = ''Sec-WebSocket-Key'' then ''dGhlIHNhbXBsZSBub25jZQ==''
                     else [])\<rparr>"

section \<open>Masking\<close>

lemma xor_byte_twice: "(a XOR k) XOR k = (a :: byte)"
  by (simp add: xor.assoc)

lemma mask_from_total:
  "length mask_key = 4 \<Longrightarrow> \<exists>ds'. mask_from i mask_key ds = Some ds'"
proof (induction ds arbitrary: i)
  case Nil
  show ?case by simp
next
  case (Cons d ds)
  from Cons.IH [OF Cons.prems, of "Suc i"] obtain ds' where
    "mask_from (Suc i) mask_key ds = Some ds'" by blast
  with Cons.prems show ?case by simp
qed

lemma mask_from_length:
  "mask_from i mask_key ds = Some ds' \<Longrightarrow> length ds' = length ds"
  by (induction ds arbitrary: i ds') (auto split: if_splits option.splits)

lemma mask_from_involutive:
  "mask_from i mask_key ds = Some ds' \<Longrightarrow> mask_from i mask_key ds' = Some ds"
  by (induction ds arbitrary: i ds') (auto simp: xor_byte_twice split: if_splits option.splits)

lemma maskData_total:
  "length mask_key = 4 \<Longrightarrow> \<exists>ds'. maskData mask_key ds = Some ds'"
  by (simp add: maskData_def mask_from_total)

lemma maskData_length:
  "maskData mask_key ds = Some ds' \<Longrightarrow> length ds' = length ds"
  by (simp add: maskData_def mask_from_length)

text \<open>
  Claim C9. Masking is involutive: for every payload, of any length, and every 4-byte
  mask key, \<^verbatim>\<open>maskData\<close> returns normally, and applying it a second time with the same
  key gives the original payload back.
\<close>

theorem maskData_involutive:
  "length mask_key = 4 \<Longrightarrow>
     (\<exists>masked. maskData mask_key payload = Some masked \<and>
                maskData mask_key masked = Some payload)"
proof -
  assume len: "length mask_key = 4"
  then obtain masked where m: "mask_from 0 mask_key payload = Some masked"
    using mask_from_total by blast
  then have "mask_from 0 mask_key masked = Some payload"
    by (rule mask_from_involutive)
  with m show ?thesis by (simp add: maskData_def)
qed

theorem maskData_involutive_witness:
  "length [0x37, 0xFA, 0x21, 0x3D :: byte] = 4 \<and>
   maskData [0x37, 0xFA, 0x21, 0x3D] [0x48, 0x65, 0x6C, 0x6C, 0x6F] =
     Some [0x7F, 0x9F, 0x4D, 0x51, 0x58] \<and>
   maskData [0x37, 0xFA, 0x21, 0x3D] [0x7F, 0x9F, 0x4D, 0x51, 0x58] =
     Some [0x48, 0x65, 0x6C, 0x6C, 0x6F]"
  using maskData_involutive [of "[0x37, 0xFA, 0x21, 0x3D]" "[0x48, 0x65, 0x6C, 0x6C, 0x6F]"]
  by (simp add: maskData_def)

section \<open>Words and lists\<close>

lemma list_update_Cons_numeral: "(x # xs)[numeral k := y] = x # xs[pred_numeral k := y]"
  by (simp add: numeral_eq_Suc)

lemma replicate_numeral: "replicate (numeral k) x = x # replicate (pred_numeral k) x"
  by (simp add: numeral_eq_Suc)

lemma and_255_nat: "(n :: nat) AND 0xFF = take_bit 8 n"
  by (simp add: take_bit_eq_mask mask_eq_exp_minus_1)

lemma and_127_byte: "(b :: byte) AND 0x7F = take_bit 7 b"
  by (simp add: take_bit_eq_mask mask_eq_exp_minus_1)

lemma bit_128_byte: "bit (0x80 :: byte) k \<longleftrightarrow> k = 7"
proof -
  have "(0x80 :: byte) = 2 ^ 7" by simp
  then have "bit (0x80 :: byte) k \<longleftrightarrow> bit (2 ^ 7 :: byte) k" by (simp only:)
  also have "\<dots> \<longleftrightarrow> k = 7" by (simp only: bit_exp_iff) (auto simp: possible_bit_word)
  finally show ?thesis .
qed

lemma bit_nat_bound: "bit (n::nat) k \<Longrightarrow> n < 2 ^ m \<Longrightarrow> k < m"
proof (rule ccontr)
  assume b: "bit n k" and n: "n < 2 ^ m" and "\<not> k < m"
  then have "(2::nat) ^ m \<le> 2 ^ k" by simp
  with n have "n < 2 ^ k" by linarith
  then have "n div 2 ^ k = 0" by simp
  with b show False by (simp add: bit_iff_odd)
qed

lemma small_and_7F: "n \<le> 125 \<Longrightarrow> (of_nat n :: byte) AND 0x7F = of_nat n"
  apply (rule bit_word_eqI)
  apply (auto simp add: and_127_byte bit_simps dest: bit_nat_bound [where m = 7])
  done

lemma small_or_80_and_7F: "n \<le> 125 \<Longrightarrow> (0x80 OR of_nat n :: byte) AND 0x7F = of_nat n"
  apply (rule bit_word_eqI)
  apply (auto simp add: and_127_byte bit_128_byte bit_simps dest: bit_nat_bound [where m = 7])
  done

lemma small_or_80_and_80: "n \<le> 125 \<Longrightarrow> (0x80 OR of_nat n :: byte) AND 0x80 = 0x80"
  apply (rule bit_word_eqI)
  apply (auto simp add: bit_and_iff bit_or_iff bit_128_byte)
  done

lemma small_and_80: "n \<le> 125 \<Longrightarrow> (of_nat n :: byte) AND 0x80 = 0"
proof -
  assume n: "n \<le> 125"
  have "(of_nat n :: byte) AND 0x80 = (of_nat n AND 0x7F) AND 0x80"
    using n by (simp only: small_and_7F)
  also have "\<dots> = of_nat n AND (0x7F AND 0x80)" by (simp only: and.assoc)
  also have "\<dots> = 0" by simp
  finally show ?thesis .
qed

lemma ucast_small: "n < 256 \<Longrightarrow> (ucast (of_nat n :: byte) :: 64 word) = of_nat n"
  apply (rule bit_word_eqI)
  apply (auto simp add: bit_simps dest: bit_nat_bound [where m = 8])
  done

lemma of_nat_64_inj:
  "n < 2 ^ 64 \<Longrightarrow> m < 2 ^ 64 \<Longrightarrow> (of_nat n :: 64 word) = of_nat m \<longleftrightarrow> n = m"
  by (simp add: word_of_nat_eq_iff take_bit_nat_eq_self)

lemma of_nat_byte_inj:
  "n < 2 ^ 8 \<Longrightarrow> m < 2 ^ 8 \<Longrightarrow> (of_nat n :: byte) = of_nat m \<longleftrightarrow> n = m"
  by (simp add: word_of_nat_eq_iff take_bit_nat_eq_self)

lemma small_byte_neq: "n \<le> 125 \<Longrightarrow> (of_nat n :: byte) \<noteq> 126 \<and> (of_nat n :: byte) \<noteq> 127"
  using of_nat_byte_inj [of n 126] of_nat_byte_inj [of n 127] by simp

lemma small_64_neq: "n \<le> 125 \<Longrightarrow> (of_nat n :: 64 word) \<noteq> 126 \<and> (of_nat n :: 64 word) \<noteq> 127"
  using of_nat_64_inj [of n 126] of_nat_64_inj [of n 127] by simp

lemma byte_part:
  "bit (push_bit k (ucast (of_nat (drop_bit k n AND 0xFF) :: byte)) :: 64 word) i
     \<longleftrightarrow> k \<le> i \<and> i < k + 8 \<and> i < 64 \<and> bit n i"
  by (auto simp add: and_255_nat bit_simps)

lemma byte_part0:
  "bit (ucast (of_nat (n AND 0xFF) :: byte) :: 64 word) i \<longleftrightarrow> i < 8 \<and> bit n i"
  by (auto simp add: and_255_nat bit_simps)

lemma be16_decode:
  "n \<le> 65535 \<Longrightarrow>
     push_bit 8 (ucast (of_nat (drop_bit 8 n AND 0xFF) :: byte)) OR
     ucast (of_nat (n AND 0xFF) :: byte) = (of_nat n :: 64 word)"
proof (rule bit_word_eqI)
  fix i assume n: "n \<le> 65535" and i: "i < LENGTH(64)"
  have "bit n i \<Longrightarrow> i < 16" using bit_nat_bound [of n i 16] n by simp
  then show "bit (push_bit 8 (ucast (of_nat (drop_bit 8 n AND 0xFF) :: byte)) OR
                  ucast (of_nat (n AND 0xFF) :: byte) :: 64 word) i
     \<longleftrightarrow> bit (of_nat n :: 64 word) i"
    using i by (cases "bit n i") (auto simp add: bit_or_iff byte_part byte_part0 bit_of_nat_iff)
qed

lemma be64_decode:
  "push_bit 56 (ucast (of_nat (drop_bit 56 n AND 0xFF) :: byte)) OR
   push_bit 48 (ucast (of_nat (drop_bit 48 n AND 0xFF) :: byte)) OR
   push_bit 40 (ucast (of_nat (drop_bit 40 n AND 0xFF) :: byte)) OR
   push_bit 32 (ucast (of_nat (drop_bit 32 n AND 0xFF) :: byte)) OR
   push_bit 24 (ucast (of_nat (drop_bit 24 n AND 0xFF) :: byte)) OR
   push_bit 16 (ucast (of_nat (drop_bit 16 n AND 0xFF) :: byte)) OR
   push_bit 8 (ucast (of_nat (drop_bit 8 n AND 0xFF) :: byte)) OR
   ucast (of_nat (n AND 0xFF) :: byte) = (of_nat n :: 64 word)"
proof (rule bit_word_eqI)
  fix i assume i: "i < LENGTH(64)"
  show "bit (push_bit 56 (ucast (of_nat (drop_bit 56 n AND 0xFF) :: byte)) OR
             push_bit 48 (ucast (of_nat (drop_bit 48 n AND 0xFF) :: byte)) OR
             push_bit 40 (ucast (of_nat (drop_bit 40 n AND 0xFF) :: byte)) OR
             push_bit 32 (ucast (of_nat (drop_bit 32 n AND 0xFF) :: byte)) OR
             push_bit 24 (ucast (of_nat (drop_bit 24 n AND 0xFF) :: byte)) OR
             push_bit 16 (ucast (of_nat (drop_bit 16 n AND 0xFF) :: byte)) OR
             push_bit 8 (ucast (of_nat (drop_bit 8 n AND 0xFF) :: byte)) OR
             ucast (of_nat (n AND 0xFF) :: byte) :: 64 word) i
          \<longleftrightarrow> bit (of_nat n :: 64 word) i"
  proof (cases "bit n i")
    case True
    have "56 \<le> i \<or> 48 \<le> i \<and> i < 56 \<or> 40 \<le> i \<and> i < 48 \<or> 32 \<le> i \<and> i < 40 \<or>
          24 \<le> i \<and> i < 32 \<or> 16 \<le> i \<and> i < 24 \<or> 8 \<le> i \<and> i < 16 \<or> i < 8"
      by arith
    with True i show ?thesis
      by (simp add: bit_or_iff byte_part byte_part0 bit_of_nat_iff)
  next
    case False
    then show ?thesis
      by (simp add: bit_or_iff byte_part byte_part0 bit_of_nat_iff)
  qed
qed

lemma sint_of_nat_64: "n < 2 ^ 63 \<Longrightarrow> sint (of_nat n :: 64 word) = int n"
  by (simp add: signed_of_nat signed_take_bit_int_eq_self)

section \<open>The frame header\<close>

lemma frame_header_small:
  "n \<le> 125 \<Longrightarrow>
     frame_header op key n =
       [0x80 OR op, (if length key = 4 then 0x80 else 0) OR of_nat n] @
       (if length key = 4 then key else [])"
  by (simp add: frame_header_def Let_def small_and_7F small_or_80_and_7F small_byte_neq
        replicate_numeral list_update_Cons_numeral)

lemma frame_header_medium:
  "125 < n \<Longrightarrow> n \<le> 65535 \<Longrightarrow>
     frame_header op key n =
       [0x80 OR op, (if length key = 4 then 0x80 else 0) OR 126,
        of_nat (drop_bit 8 n AND 0xFF), of_nat (n AND 0xFF)] @
       (if length key = 4 then key else [])"
  by (simp add: frame_header_def Let_def replicate_numeral list_update_Cons_numeral)

lemma frame_header_large:
  "65535 < n \<Longrightarrow>
     frame_header op key n =
       [0x80 OR op, (if length key = 4 then 0x80 else 0) OR 127,
        of_nat (drop_bit 56 n AND 0xFF), of_nat (drop_bit 48 n AND 0xFF),
        of_nat (drop_bit 40 n AND 0xFF), of_nat (drop_bit 32 n AND 0xFF),
        of_nat (drop_bit 24 n AND 0xFF), of_nat (drop_bit 16 n AND 0xFF),
        of_nat (drop_bit 8 n AND 0xFF), of_nat (n AND 0xFF)] @
       (if length key = 4 then key else [])"
  by (simp add: frame_header_def Let_def replicate_numeral list_update_Cons_numeral)

section \<open>Reading\<close>

lemma ReadByte_arrives:
  "\<not> conn_closed s \<Longrightarrow> arrives s (b # c) cs \<Longrightarrow>
     ReadByte s = (Some b, s\<lparr>rbuf := c, rpending := cs\<rparr>)"
  by (auto simp: ReadByte_def arrives_def)

lemma ReadByte_rbuf:
  "rbuf s = b # c \<Longrightarrow> ReadByte s = (Some b, s\<lparr>rbuf := c\<rparr>)"
  by (simp add: ReadByte_def)

lemma Read_rbuf:
  "0 < n \<Longrightarrow> rbuf s \<noteq> [] \<Longrightarrow> Read n s = (Some (take n (rbuf s)), s\<lparr>rbuf := drop n (rbuf s)\<rparr>)"
  by (simp add: Read_def)

lemma read_data_avail:
  "\<not> conn_closed s \<Longrightarrow> n \<le> length (rbuf s @ concat (rpending s)) \<Longrightarrow>
     \<exists>r p. read_data n s = (Some (take n (rbuf s @ concat (rpending s))),
                            s\<lparr>rbuf := r, rpending := p\<rparr>) \<and>
           r @ concat p = drop n (rbuf s @ concat (rpending s))"
proof (induction n s rule: read_data.induct)
  case (1 remaining s)
  show ?case
  proof (cases "remaining = 0")
    case True
    show ?thesis
      apply (rule exI [of _ "rbuf s"], rule exI [of _ "rpending s"])
      using True by (simp add: read_data.simps)
  next
    case pos: False
    show ?thesis
    proof (cases "rbuf s = []")
      case False
      let ?bs = "take remaining (rbuf s)"
      let ?s1 = "s\<lparr>rbuf := drop remaining (rbuf s)\<rparr>"
      have r: "Read remaining s = (Some ?bs, ?s1)" using pos False by (simp add: Read_def)
      have c1: "\<not> conn_closed ?s1" using "1.prems" by simp
      have l1: "remaining - length ?bs \<le> length (rbuf ?s1 @ concat (rpending ?s1))"
        using "1.prems" by simp
      from "1.IH" [OF pos r [symmetric] refl c1 l1] obtain r' p' where
        rd: "read_data (remaining - length ?bs) ?s1 =
               (Some (take (remaining - length ?bs) (rbuf ?s1 @ concat (rpending ?s1))),
                ?s1\<lparr>rbuf := r', rpending := p'\<rparr>)"
        and rest: "r' @ concat p' = drop (remaining - length ?bs) (rbuf ?s1 @ concat (rpending ?s1))"
        by blast
      have t: "?bs @ take (remaining - length ?bs) (rbuf ?s1 @ concat (rpending ?s1))
                 = take remaining (rbuf s @ concat (rpending s))"
        by (cases "remaining \<le> length (rbuf s)") (simp_all add: min_def)
      have d: "drop (remaining - length ?bs) (rbuf ?s1 @ concat (rpending ?s1))
                 = drop remaining (rbuf s @ concat (rpending s))"
        by (cases "remaining \<le> length (rbuf s)") (simp_all add: min_def)
      show ?thesis
        apply (rule exI [of _ r'], rule exI [of _ p'])
        using pos r rd rest t d by (simp add: read_data.simps [of remaining s])
    next
      case True
      with "1.prems" pos obtain c cs where p: "rpending s = c # cs"
        by (cases "rpending s") auto
      let ?bs = "take remaining c"
      let ?s1 = "s\<lparr>rbuf := drop remaining c, rpending := cs\<rparr>"
      have r: "Read remaining s = (Some ?bs, ?s1)"
        using pos True p "1.prems" by (simp add: Read_def)
      have c1: "\<not> conn_closed ?s1" using "1.prems" by simp
      have l1: "remaining - length ?bs \<le> length (rbuf ?s1 @ concat (rpending ?s1))"
        using "1.prems" True p by simp
      from "1.IH" [OF pos r [symmetric] refl c1 l1] obtain r' p' where
        rd: "read_data (remaining - length ?bs) ?s1 =
               (Some (take (remaining - length ?bs) (rbuf ?s1 @ concat (rpending ?s1))),
                ?s1\<lparr>rbuf := r', rpending := p'\<rparr>)"
        and rest: "r' @ concat p' = drop (remaining - length ?bs) (rbuf ?s1 @ concat (rpending ?s1))"
        by blast
      have t: "?bs @ take (remaining - length ?bs) (rbuf ?s1 @ concat (rpending ?s1))
                 = take remaining (rbuf s @ concat (rpending s))"
        using True p by (cases "remaining \<le> length c") (simp_all add: min_def)
      have d: "drop (remaining - length ?bs) (rbuf ?s1 @ concat (rpending ?s1))
                 = drop remaining (rbuf s @ concat (rpending s))"
        using True p by (cases "remaining \<le> length c") (simp_all add: min_def)
      show ?thesis
        apply (rule exI [of _ r'], rule exI [of _ p'])
        using pos r rd rest t d by (simp add: read_data.simps [of remaining s])
    qed
  qed
qed

lemmas OPCODE_defs = OPCODE_CONTINUATION_def OPCODE_TEXT_def OPCODE_BINARY_def
  OPCODE_CLOSE_def OPCODE_PING_def OPCODE_PONG_def

lemma frame_header_eq:
  "frame_header op key n =
     [0x80 OR op, mask_bit key OR length_code n] @ extended_length n @
     (if length key = 4 then key else [])"
proof -
  consider "n \<le> 125" | "125 < n" "n \<le> 65535" | "65535 < n" by linarith
  then show ?thesis
  proof cases
    case 1
    then show ?thesis
      by (simp add: frame_header_small mask_bit_def length_code_def extended_length_def)
  next
    case 2
    then show ?thesis
      by (simp add: frame_header_medium mask_bit_def length_code_def extended_length_def)
  next
    case 3
    then show ?thesis
      by (simp add: frame_header_large mask_bit_def length_code_def extended_length_def)
  qed
qed

lemma first_byte:
  "valid_opcode op \<Longrightarrow>
     (0x80 OR op) AND 0x80 = 0x80 \<and> (0x80 OR op) AND 0x40 \<noteq> 0x40 \<and>
     (0x80 OR op) AND 0x20 \<noteq> 0x20 \<and> (0x80 OR op) AND 0x10 \<noteq> 0x10 \<and>
     (0x80 OR op) AND 0x0F = op"
  by (auto simp: valid_opcode_def OPCODE_defs)

lemma second_byte_mask:
  "((mask_bit key OR length_code n) AND 0x80 = 0x80) = (length key = 4)"
  by (simp add: mask_bit_def length_code_def small_or_80_and_80 small_and_80)

lemma read_payload_len_frame:
  assumes "rbuf s = extended_length n @ rest"
  shows "read_payload_len (mask_bit key OR length_code n) s = (Inr (of_nat n), s\<lparr>rbuf := rest\<rparr>)"
proof -
  consider "n \<le> 125" | "125 < n" "n \<le> 65535" | "65535 < n" by linarith
  then show ?thesis
  proof cases
    case 1
    then have "ucast ((mask_bit key OR length_code n) AND 0x7F) = (of_nat n :: 64 word)"
      by (simp add: mask_bit_def length_code_def small_and_7F small_or_80_and_7F ucast_small)
    moreover have "s\<lparr>rbuf := rest\<rparr> = s" using assms 1 by (simp add: extended_length_def)
    ultimately show ?thesis
      using 1 by (simp add: read_payload_len_def Let_def small_64_neq)
  next
    case 2
    then have c: "ucast ((mask_bit key OR length_code n) AND 0x7F) = (126 :: 64 word)"
      by (simp add: mask_bit_def length_code_def)
    have r: "Read 2 s = (Some [of_nat (drop_bit 8 n AND 0xFF), of_nat (n AND 0xFF)],
                         s\<lparr>rbuf := rest\<rparr>)"
      using assms 2 by (simp add: Read_def extended_length_def)
    show ?thesis
      using 2 by (simp add: read_payload_len_def Let_def c r be16_decode)
  next
    case 3
    then have c: "ucast ((mask_bit key OR length_code n) AND 0x7F) = (127 :: 64 word)"
      by (simp add: mask_bit_def length_code_def)
    have r: "Read 8 s = (Some (extended_length n), s\<lparr>rbuf := rest\<rparr>)"
      using assms 3 by (simp add: Read_def extended_length_def)
    have e: "extended_length n = [of_nat (drop_bit 56 n AND 0xFF), of_nat (drop_bit 48 n AND 0xFF),
            of_nat (drop_bit 40 n AND 0xFF), of_nat (drop_bit 32 n AND 0xFF),
            of_nat (drop_bit 24 n AND 0xFF), of_nat (drop_bit 16 n AND 0xFF),
            of_nat (drop_bit 8 n AND 0xFF), of_nat (n AND 0xFF)]"
      using 3 by (simp add: extended_length_def)
    show ?thesis
      unfolding read_payload_len_def Let_def c r
      by (simp add: e be64_decode)
  qed
qed

lemma read_mask_key_frame:
  assumes "rbuf s = (if length key = 4 then key else []) @ rest"
  shows "\<exists>k. read_mask_key (length key = 4) s = (Inr k, s\<lparr>rbuf := rest\<rparr>) \<and>
             (length key = 4 \<longrightarrow> k = key)"
proof (cases "length key = 4")
  case True
  then have "key \<noteq> []" by auto
  with True assms have "Read 4 s = (Some key, s\<lparr>rbuf := rest\<rparr>)"
    by (simp add: Read_def)
  with True show ?thesis by (simp add: read_mask_key_def)
next
  case False
  with assms have "s\<lparr>rbuf := rest\<rparr> = s" by simp
  with False show ?thesis by (simp add: read_mask_key_def)
qed

lemma masked_payload_length: "length (masked_payload key payload) = length payload"
  by (auto simp: masked_payload_def maskData_length split: option.splits)

lemma unmask_masked_payload:
  "length key = 4 \<Longrightarrow> maskData key (masked_payload key payload) = Some payload"
proof -
  assume k: "length key = 4"
  then obtain m where m: "mask_from 0 key payload = Some m"
    using mask_from_total by blast
  then have "mask_from 0 key m = Some payload" by (rule mask_from_involutive)
  with k m show ?thesis by (simp add: masked_payload_def maskData_def)
qed

lemma sint_max_bound: "sint (w :: 64 word) < 2 ^ 63"
  using sint_less [of w] by simp

lemma readFrame_frame_bytes:
  assumes opn: "is_open ws" and ncl: "\<not> conn_closed (rw ws)"
    and op: "valid_opcode op"
    and mx: "int (length payload) \<le> sint (global_frame_max_size g)"
    and arr: "arrives (rw ws) (frame_header op key (length payload) @ p0) cs"
    and pay: "p0 @ concat cs = masked_payload key payload @ rest"
  shows "\<exists>r p. r @ concat p = rest \<and>
           readFrame ws g =
             (case dispatch op payload (ws\<lparr>rw := (rw ws)\<lparr>rbuf := r, rpending := p\<rparr>\<rparr>) g of
                (ws', g') \<Rightarrow> (Ok (), ws', g'))"
proof -
  let ?n = "length payload"
  let ?b1 = "0x80 OR op"
  let ?b2 = "mask_bit key OR length_code ?n"
  let ?kp = "if length key = 4 then key else []"
  let ?s0 = "rw ws"
  let ?s1 = "?s0\<lparr>rbuf := ?b2 # extended_length ?n @ ?kp @ p0, rpending := cs\<rparr>"
  let ?s2 = "?s0\<lparr>rbuf := extended_length ?n @ ?kp @ p0, rpending := cs\<rparr>"
  let ?s3 = "?s0\<lparr>rbuf := ?kp @ p0, rpending := cs\<rparr>"
  let ?s4 = "?s0\<lparr>rbuf := p0, rpending := cs\<rparr>"
  have "int ?n < 2 ^ 63"
    using mx sint_max_bound [of "global_frame_max_size g"] by linarith
  moreover have "int ((2::nat) ^ 63) = 2 ^ 63" by simp
  ultimately have n63: "?n < 2 ^ 63" by linarith
  have sn: "sint (of_nat ?n :: 64 word) = int ?n"
    using n63 by (rule sint_of_nat_64)
  from arr have arr': "arrives ?s0 (?b1 # ?b2 # extended_length ?n @ ?kp @ p0) cs"
    by (simp add: frame_header_eq)
  have 1: "ReadByte ?s0 = (Some ?b1, ?s1)"
    using ReadByte_arrives [OF ncl arr'] by simp
  have 2: "ReadByte ?s1 = (Some ?b2, ?s2)"
    by (simp add: ReadByte_def)
  have 3: "read_payload_len ?b2 ?s2 = (Inr (of_nat ?n), ?s3)"
    using read_payload_len_frame [of ?s2 ?n "?kp @ p0" key] by simp
  have big: "\<not> global_frame_max_size g <s of_nat ?n"
    using mx sn by (simp add: word_sless_alt)
  have neg: "\<not> (of_nat ?n :: 64 word) <s 0"
    using sn by (simp add: word_sless_alt)
  obtain k where 4: "read_mask_key (length key = 4) ?s3 = (Inr k, ?s4)"
    and k: "length key = 4 \<longrightarrow> k = key"
    using read_mask_key_frame [of ?s3 key p0] by auto
  have "?n \<le> length (rbuf ?s4 @ concat (rpending ?s4))"
    using pay by (simp add: masked_payload_length)
  moreover have "\<not> conn_closed ?s4" using ncl by simp
  ultimately obtain r p where
    5: "read_data ?n ?s4 = (Some (take ?n (rbuf ?s4 @ concat (rpending ?s4))),
                            ?s4\<lparr>rbuf := r, rpending := p\<rparr>)"
    and rp: "r @ concat p = drop ?n (rbuf ?s4 @ concat (rpending ?s4))"
    using read_data_avail [of ?s4 ?n] by blast
  have tk: "take ?n (rbuf ?s4 @ concat (rpending ?s4)) = masked_payload key payload"
    using pay by (simp add: masked_payload_length)
  have dr: "r @ concat p = rest"
    using rp pay by (simp add: masked_payload_length)
  have rd5: "read_data ?n ?s4 = (Some (masked_payload key payload),
                                 ?s0\<lparr>rbuf := r, rpending := p\<rparr>)"
    using 5 tk by simp
  have un: "(if length key = 4
             then (case maskData k (masked_payload key payload) of Some d \<Rightarrow> d
                   | None \<Rightarrow> masked_payload key payload)
             else masked_payload key payload) = payload"
  proof (cases "length key = 4")
    case True
    with k show ?thesis by (simp add: unmask_masked_payload)
  next
    case False
    then show ?thesis by (simp add: masked_payload_def)
  qed
  have "readFrame ws g =
          (case dispatch op payload (ws\<lparr>rw := ?s0\<lparr>rbuf := r, rpending := p\<rparr>\<rparr>) g of
             (ws', g') \<Rightarrow> (Ok (), ws', g'))"
    unfolding readFrame_def
    using opn op first_byte [OF op]
    by (simp add: 1 2 3 4 rd5 big neg sn un second_byte_mask Let_def valid_opcode_def
          del: One_nat_def)
  with dr show ?thesis by blast
qed

lemma sendFrame_sent:
  assumes "healthy (rw ws)" and "opcode \<le> 0x0F"
  shows "sendFrame ws opcode key payload =
           (None,
            ws\<lparr>rw := (rw ws)\<lparr>sent := sent (rw ws) @ wbuf (rw ws) @ frame_bytes opcode key payload,
                              wbuf := []\<rparr>\<rparr>,
            masked_payload key payload)"
proof -
  have "frame_header opcode key (length payload) \<noteq> []"
    by (simp add: frame_header_eq)
  then show ?thesis
    using assms
    by (simp add: sendFrame_def Let_def Write_def Flush_def healthy_def frame_bytes_def
          masked_payload_def not_less)
qed

section \<open>Closing twice\<close>

lemma sendFrame_ws:
  "fst (snd (sendFrame ws op k p)) = ws\<lparr>rw := rw (fst (snd (sendFrame ws op k p)))\<rparr>"
  by (simp add: sendFrame_def Let_def split: prod.splits bool.splits)

lemma sendFrame_reader:
  "rbuf (rw (fst (snd (sendFrame ws op k p)))) = rbuf (rw ws) \<and>
   rpending (rw (fst (snd (sendFrame ws op k p)))) = rpending (rw ws) \<and>
   conn_closed (rw (fst (snd (sendFrame ws op k p)))) = conn_closed (rw ws)"
  by (auto simp: sendFrame_def Let_def Write_def Flush_def split: prod.splits if_splits)

lemma closeWebSocket_closed: "\<not> is_open ws \<Longrightarrow> closeWebSocket ws data g = (ws, g)"
  by (simp add: closeWebSocket_def)

lemma closeWebSocket_open:
  assumes "is_open ws"
  shows "\<exists>s. closeWebSocket ws data g =
           (ws\<lparr>is_open := False, rw := s\<rparr>,
            g\<lparr>global_websockets := (global_websockets g)(ID ws := None),
              global_websocket_count := global_websocket_count g - 1,
              trace := trace g @ [RegistryDelete (ID ws), ConnClose (ID ws), CounterAdd (- 1)] @
                       (if ClosedHandler ws then [ClosedHandlerCall (ID ws)] else [])\<rparr>) \<and>
           conn_closed s \<and> rbuf s = rbuf (rw ws) \<and> rpending s = rpending (rw ws)"
proof -
  let ?ws1 = "ws\<lparr>is_open := False\<rparr>"
  let ?ws2 = "fst (snd (sendFrame ?ws1 OPCODE_CLOSE [] data))"
  have "?ws2 = ?ws1\<lparr>rw := rw ?ws2\<rparr>" by (rule sendFrame_ws)
  then have eq: "?ws2\<lparr>rw := rw ?ws2\<lparr>conn_closed := True\<rparr>\<rparr> =
                 ws\<lparr>is_open := False, rw := rw ?ws2\<lparr>conn_closed := True\<rparr>\<rparr>"
    and id: "ID ?ws2 = ID ws" and ch: "ClosedHandler ?ws2 = ClosedHandler ws"
    by (metis (no_types, lifting) WebSocket.surjective WebSocket.update_convs(2,6) WebSocket.select_convs(1,9))+
  show ?thesis
    apply (rule exI [of _ "rw ?ws2\<lparr>conn_closed := True\<rparr>"])
    using assms eq id ch sendFrame_reader [of ?ws1 OPCODE_CLOSE "[]" data]
    by (simp add: closeWebSocket_def Let_def)
qed

text \<open>
  Claim C5. Closing is idempotent. On an open connection the first call of
  \<^verbatim>\<open>closeWebSocket\<close> does the teardown once: the calls it adds to the trace are one
  registry removal, one \<^verbatim>\<open>conn.Close\<close>, one decrement of the admission counter and,
  when a Closed handler is registered, one call of it; the registry loses the id and the
  counter goes down by one. A second call, with any close body (a Close frame received
  and then a transport error in the read loop, or the reverse), changes nothing: it
  returns the connection and the globals as they are.
\<close>

theorem closeWebSocket_twice:
  "is_open ws \<Longrightarrow>
     (case closeWebSocket ws data g of
        (ws1, g1) \<Rightarrow>
          closeWebSocket ws1 data' g1 = (ws1, g1) \<and>
          \<not> is_open ws1 \<and>
          trace g1 = trace g @ [RegistryDelete (ID ws), ConnClose (ID ws), CounterAdd (- 1)] @
                     (if ClosedHandler ws then [ClosedHandlerCall (ID ws)] else []) \<and>
          global_websockets g1 = (global_websockets g)(ID ws := None) \<and>
          global_websocket_count g1 = global_websocket_count g - 1)"
proof -
  assume "is_open ws"
  then obtain s where "closeWebSocket ws data g =
           (ws\<lparr>is_open := False, rw := s\<rparr>,
            g\<lparr>global_websockets := (global_websockets g)(ID ws := None),
              global_websocket_count := global_websocket_count g - 1,
              trace := trace g @ [RegistryDelete (ID ws), ConnClose (ID ws), CounterAdd (- 1)] @
                       (if ClosedHandler ws then [ClosedHandlerCall (ID ws)] else [])\<rparr>)"
    using closeWebSocket_open by blast
  then show ?thesis by (simp add: closeWebSocket_closed)
qed

theorem closeWebSocket_twice_witness:
  "is_open (example_ws []) \<and>
   (case closeWebSocket (example_ws []) [3, 232] initial_globals of
      (ws1, g1) \<Rightarrow>
        closeWebSocket ws1 [3, 232] g1 = (ws1, g1) \<and>
        \<not> is_open ws1 \<and>
        trace g1 = [RegistryDelete 1, ConnClose 1, CounterAdd (- 1), ClosedHandlerCall 1] \<and>
        sent (rw ws1) = [0x88, 2, 3, 232])"
  using closeWebSocket_twice [of "example_ws []" "[3, 232]" initial_globals "[3, 232]"]
  by (simp add: example_ws_def example_conn_def initial_globals_def closeWebSocket_def
        sendFrame_sent healthy_def frame_bytes_def frame_header_small masked_payload_def
        OPCODE_CLOSE_def Let_def)

section \<open>Encoding and decoding\<close>

lemma arrives_first_chunk:
  assumes "rbuf s = []" and "rpending s = c # cs" and "concat (c # cs) = h @ y"
    and "length h \<le> length c" and "h \<noteq> []"
  shows "\<exists>p0. arrives s (h @ p0) cs \<and> p0 @ concat cs = y"
proof -
  from assms(3) have "c @ concat cs = h @ y" by simp
  with assms(4) obtain p0 where c: "c = h @ p0" and "p0 @ concat cs = y"
    by (auto simp: append_eq_append_conv2 append_eq_append_conv_if)
  with assms(1,2,5) show ?thesis by (auto simp: arrives_def)
qed

lemma dispatch_text:
  "ReceiveTextHandler ws \<Longrightarrow>
     dispatch OPCODE_TEXT data ws g = (ws, g\<lparr>trace := trace g @ [TextHandlerCall (ID ws) data]\<rparr>)"
  by (simp add: dispatch_def OPCODE_defs)

lemma dispatch_binary:
  "ReceiveBinaryHandler ws \<Longrightarrow>
     dispatch OPCODE_BINARY data ws g =
       (ws, g\<lparr>trace := trace g @ [BinaryHandlerCall (ID ws) data]\<rparr>)"
  by (simp add: dispatch_def OPCODE_defs)

lemma frame_header_nonempty: "frame_header op key n \<noteq> []"
  by (simp add: frame_header_eq)

lemma frame_roundtrip_general:
  assumes opc: "opcode = OPCODE_TEXT \<or> opcode = OPCODE_BINARY"
    and snd: "healthy (rw sender)" "wbuf (rw sender) = []" "sent (rw sender) = []"
    and rcv: "is_open ws" "\<not> conn_closed (rw ws)" "ReceiveTextHandler ws"
      "ReceiveBinaryHandler ws"
    and size: "int (length payload) \<le> sint (global_frame_max_size g)"
    and wire: "rbuf (rw ws) = []" "rpending (rw ws) = c # cs"
      "concat (c # cs) = sent (rw (fst (snd (sendFrame sender opcode [] payload))))"
    and first: "length (frame_header opcode [] (length payload)) \<le> length c"
  shows "sendFrame sender opcode [] payload =
           (None, sender\<lparr>rw := (rw sender)\<lparr>sent := frame_header opcode [] (length payload) @ payload\<rparr>\<rparr>,
            payload) \<and>
         fst (readFrame ws g) = Ok () \<and>
         snd (snd (readFrame ws g)) =
           g\<lparr>trace := trace g @
                 [if opcode = OPCODE_TEXT then TextHandlerCall (ID ws) payload
                  else BinaryHandlerCall (ID ws) payload]\<rparr>"
proof -
  have le: "opcode \<le> 0x0F" using opc by (auto simp: OPCODE_defs)
  have vo: "valid_opcode opcode" using opc by (auto simp: valid_opcode_def)
  have sf: "sendFrame sender opcode [] payload =
           (None, sender\<lparr>rw := (rw sender)\<lparr>sent := frame_header opcode [] (length payload) @ payload\<rparr>\<rparr>,
            payload)"
    using sendFrame_sent [OF snd(1) le, of "[]" payload] snd(2,3)
    by (simp add: frame_bytes_def masked_payload_def)
  then have "concat (c # cs) = frame_header opcode [] (length payload) @ payload @ []"
    using wire(3) by simp
  from arrives_first_chunk [OF wire(1,2) this first frame_header_nonempty]
  obtain p0 where arr: "arrives (rw ws) (frame_header opcode [] (length payload) @ p0) cs"
    and p0: "p0 @ concat cs = masked_payload [] payload @ []"
    by (auto simp: masked_payload_def)
  from readFrame_frame_bytes [OF rcv(1,2) vo size arr p0]
  obtain r p where
    rf: "readFrame ws g =
           (case dispatch opcode payload (ws\<lparr>rw := (rw ws)\<lparr>rbuf := r, rpending := p\<rparr>\<rparr>) g of
              (ws', g') \<Rightarrow> (Ok (), ws', g'))"
    by blast
  from opc have "fst (readFrame ws g) = Ok () \<and>
         snd (snd (readFrame ws g)) =
           g\<lparr>trace := trace g @
                 [if opcode = OPCODE_TEXT then TextHandlerCall (ID ws) payload
                  else BinaryHandlerCall (ID ws) payload]\<rparr>"
  proof
    assume "opcode = OPCODE_TEXT"
    then show ?thesis using rf rcv(3) by (simp add: dispatch_text)
  next
    assume "opcode = OPCODE_BINARY"
    moreover have "OPCODE_BINARY \<noteq> OPCODE_TEXT" by (simp add: OPCODE_defs)
    ultimately show ?thesis using rf rcv(4) by (simp add: dispatch_binary)
  qed
  with sf show ?thesis by simp
qed

text \<open>
  Claim C2. Round trip. A healthy sender encodes a Text or Binary frame, unmasked, with
  a payload of one of the lengths 0, 1, 125, 126, 65535, 65536; the bytes reach an open
  receiver with the default maximum frame size, cut into chunks in any way that keeps
  the header in the first chunk. Then \<^verbatim>\<open>sendFrame\<close> succeeds and sends the header
  followed by the payload, \<^verbatim>\<open>readFrame\<close> succeeds and calls the handler of that opcode,
  and only that one, with exactly the payload bytes; and the header has the inline
  length up to 125, the 16-bit length from 126 to 65535, the 64-bit length from 65536.
\<close>

theorem frame_roundtrip:
  assumes len: "length payload \<in> {0, 1, 125, 126, 65535, 65536}"
    and opc: "opcode = OPCODE_TEXT \<or> opcode = OPCODE_BINARY"
    and snd: "healthy (rw sender)" "wbuf (rw sender) = []" "sent (rw sender) = []"
    and rcv: "is_open ws" "\<not> conn_closed (rw ws)" "ReceiveTextHandler ws"
      "ReceiveBinaryHandler ws"
    and size: "global_frame_max_size g = 1024 * 1024"
    and wire: "rbuf (rw ws) = []" "rpending (rw ws) = c # cs"
      "concat (c # cs) = sent (rw (fst (snd (sendFrame sender opcode [] payload))))"
    and first: "length (frame_header opcode [] (length payload)) \<le> length c"
  shows "sendFrame sender opcode [] payload =
           (None, sender\<lparr>rw := (rw sender)\<lparr>sent := frame_header opcode [] (length payload) @ payload\<rparr>\<rparr>,
            payload) \<and>
         fst (readFrame ws g) = Ok () \<and>
         snd (snd (readFrame ws g)) =
           g\<lparr>trace := trace g @
                 [if opcode = OPCODE_TEXT then TextHandlerCall (ID ws) payload
                  else BinaryHandlerCall (ID ws) payload]\<rparr> \<and>
         frame_header opcode [] (length payload) =
           (if length payload \<le> 125 then [0x80 OR opcode, of_nat (length payload)]
            else if length payload \<le> 65535 then
              [0x80 OR opcode, 126,
               of_nat (drop_bit 8 (length payload) AND 0xFF), of_nat (length payload AND 0xFF)]
            else
              [0x80 OR opcode, 127,
               of_nat (drop_bit 56 (length payload) AND 0xFF),
               of_nat (drop_bit 48 (length payload) AND 0xFF),
               of_nat (drop_bit 40 (length payload) AND 0xFF),
               of_nat (drop_bit 32 (length payload) AND 0xFF),
               of_nat (drop_bit 24 (length payload) AND 0xFF),
               of_nat (drop_bit 16 (length payload) AND 0xFF),
               of_nat (drop_bit 8 (length payload) AND 0xFF),
               of_nat (length payload AND 0xFF)])"
proof -
  have "sint (global_frame_max_size g) = 1048576" using size by simp
  moreover have "length payload \<le> 65536" using len by auto
  ultimately have sz: "int (length payload) \<le> sint (global_frame_max_size g)" by simp
  have hd: "frame_header opcode [] (length payload) =
           (if length payload \<le> 125 then [0x80 OR opcode, of_nat (length payload)]
            else if length payload \<le> 65535 then
              [0x80 OR opcode, 126,
               of_nat (drop_bit 8 (length payload) AND 0xFF), of_nat (length payload AND 0xFF)]
            else
              [0x80 OR opcode, 127,
               of_nat (drop_bit 56 (length payload) AND 0xFF),
               of_nat (drop_bit 48 (length payload) AND 0xFF),
               of_nat (drop_bit 40 (length payload) AND 0xFF),
               of_nat (drop_bit 32 (length payload) AND 0xFF),
               of_nat (drop_bit 24 (length payload) AND 0xFF),
               of_nat (drop_bit 16 (length payload) AND 0xFF),
               of_nat (drop_bit 8 (length payload) AND 0xFF),
               of_nat (length payload AND 0xFF)])"
    by (simp add: frame_header_small frame_header_medium frame_header_large)
  from frame_roundtrip_general [OF opc snd rcv sz wire first] hd show ?thesis by simp
qed

theorem frame_roundtrip_witness:
  "length (replicate 126 (0x61 :: byte)) \<in> {0, 1, 125, 126, 65535, 65536} \<and>
   sendFrame (example_ws []) OPCODE_TEXT [] (replicate 126 0x61) =
     (None,
      (example_ws [])\<lparr>rw := (example_conn [])\<lparr>sent := [0x81, 126, 0, 126] @ replicate 126 0x61\<rparr>\<rparr>,
      replicate 126 0x61) \<and>
   fst (readFrame (example_ws [[0x81, 126, 0, 126, 0x61], replicate 125 0x61]) initial_globals)
     = Ok () \<and>
   trace (snd (snd (readFrame (example_ws [[0x81, 126, 0, 126, 0x61], replicate 125 0x61])
                      initial_globals)))
     = [TextHandlerCall 1 (replicate 126 0x61)]"
proof -
  have h: "frame_header OPCODE_TEXT [] 126 = [0x81, 126, 0, 126]"
    by (simp add: frame_header_medium OPCODE_defs)
  have r: "replicate 126 (0x61 :: byte) = 0x61 # replicate 125 0x61"
    by (simp add: replicate_numeral)
  have s: "sendFrame (example_ws []) OPCODE_TEXT [] (replicate 126 0x61) =
     (None,
      (example_ws [])\<lparr>rw := (example_conn [])\<lparr>sent := [0x81, 126, 0, 126] @ replicate 126 0x61\<rparr>\<rparr>,
      replicate 126 0x61)"
    using sendFrame_sent [of "example_ws []" OPCODE_TEXT "[]" "replicate 126 0x61"] h
    by (simp add: example_ws_def example_conn_def healthy_def frame_bytes_def
          masked_payload_def OPCODE_defs)
  show ?thesis
    using frame_roundtrip [of "replicate 126 0x61" OPCODE_TEXT "example_ws []"
        "example_ws [[0x81, 126, 0, 126, 0x61], replicate 125 0x61]" initial_globals
        "[0x81, 126, 0, 126, 0x61]" "[replicate 125 0x61]"] h s
    by (simp add: example_ws_def example_conn_def healthy_def initial_globals_def r)
qed

section \<open>Ping\<close>

text \<open>
  Claim C8. A Ping frame, masked or not, arrives on an open connection whose writer is
  healthy and has nothing buffered; its payload is within the maximum frame size. Then
  \<^verbatim>\<open>readFrame\<close> returns success, the bytes sent are extended by exactly one unmasked
  Pong frame carrying the same payload bytes, the connection stays open, and the globals,
  the trace of handler calls among them, are unchanged: no handler is called.
\<close>

theorem ping_pong:
  assumes "is_open ws" and "healthy (rw ws)" and "wbuf (rw ws) = []"
    and "int (length payload) \<le> sint (global_frame_max_size g)"
    and "arrives (rw ws) (frame_header OPCODE_PING key (length payload) @ p0) cs"
    and "p0 @ concat cs = masked_payload key payload @ rest"
  shows "(case readFrame ws g of
            (res, ws', g') \<Rightarrow>
              res = Ok () \<and> g' = g \<and> is_open ws' \<and>
              sent (rw ws') =
                sent (rw ws) @ frame_header OPCODE_PONG [] (length payload) @ payload)"
proof -
  have ncl: "\<not> conn_closed (rw ws)" using assms(2) by (simp add: healthy_def)
  have vo: "valid_opcode OPCODE_PING" by (simp add: valid_opcode_def)
  from readFrame_frame_bytes [OF assms(1) ncl vo assms(4,5,6)] obtain r p where
    rf: "readFrame ws g =
           (case dispatch OPCODE_PING payload
                   (ws\<lparr>rw := (rw ws)\<lparr>rbuf := r, rpending := p\<rparr>\<rparr>) g of
              (ws', g') \<Rightarrow> (Ok (), ws', g'))"
    by blast
  let ?ws1 = "ws\<lparr>rw := (rw ws)\<lparr>rbuf := r, rpending := p\<rparr>\<rparr>"
  have h1: "healthy (rw ?ws1)" using assms(2) by (simp add: healthy_def)
  have le: "OPCODE_PONG \<le> 0x0F" by (simp add: OPCODE_defs)
  have d: "dispatch OPCODE_PING payload ?ws1 g =
             (fst (snd (sendFrame ?ws1 OPCODE_PONG [] payload)), g)"
    by (simp add: dispatch_def OPCODE_defs)
  show ?thesis
    using assms(1,3)
    by (simp add: rf d sendFrame_sent [OF h1 le] frame_bytes_def masked_payload_def)
qed

theorem ping_pong_witness:
  "is_open (example_ws [[0x89, 0x89, 1, 2, 3, 4, 0x71, 0x6B, 0x6D, 0x63, 0x2C, 0x66, 0x62, 0x70, 0x60]]) \<and>
   maskData [1, 2, 3, 4] [0x70, 0x69, 0x6E, 0x67, 0x2D, 0x64, 0x61, 0x74, 0x61] =
     Some [0x71, 0x6B, 0x6D, 0x63, 0x2C, 0x66, 0x62, 0x70, 0x60] \<and>
   (case readFrame (example_ws [[0x89, 0x89, 1, 2, 3, 4, 0x71, 0x6B, 0x6D, 0x63, 0x2C, 0x66, 0x62, 0x70, 0x60]])
           initial_globals of
      (res, ws', g') \<Rightarrow>
        res = Ok () \<and> g' = initial_globals \<and> is_open ws' \<and>
        sent (rw ws') = [0x8A, 9, 0x70, 0x69, 0x6E, 0x67, 0x2D, 0x64, 0x61, 0x74, 0x61])"
proof -
  have m: "maskData [1, 2, 3, 4] [0x70, 0x69, 0x6E, 0x67, 0x2D, 0x64, 0x61, 0x74, 0x61] =
     Some [0x71, 0x6B, 0x6D, 0x63, 0x2C, 0x66, 0x62, 0x70, 0x60]"
    by (simp add: maskData_def)
  show ?thesis
    using ping_pong [of "example_ws [[0x89, 0x89, 1, 2, 3, 4, 0x71, 0x6B, 0x6D, 0x63, 0x2C, 0x66, 0x62, 0x70, 0x60]]"
        "[0x70, 0x69, 0x6E, 0x67, 0x2D, 0x64, 0x61, 0x74, 0x61]" initial_globals
        "[1, 2, 3, 4]" "[0x71, 0x6B, 0x6D, 0x63, 0x2C, 0x66, 0x62, 0x70, 0x60]" "[]" "[]"] m
    by (simp add: example_ws_def example_conn_def healthy_def initial_globals_def
          frame_header_small arrives_def masked_payload_def OPCODE_defs)
qed

section \<open>Text frames\<close>

text \<open>
  Claim C10. A Text frame, masked or not, arrives on an open connection with a text
  handler; its payload is any byte sequence within the maximum frame size. Then
  \<^verbatim>\<open>readFrame\<close> returns success and the one call it adds to the trace is the text
  handler with exactly the payload bytes. Nothing in the path looks at the bytes:
  \<^verbatim>\<open>string(data)\<close> keeps them as they are, and the dispatch hands any \<open>data\<close> to the
  handler.
\<close>

theorem text_delivered_verbatim:
  assumes "is_open ws" and "\<not> conn_closed (rw ws)" and "ReceiveTextHandler ws"
    and "int (length payload) \<le> sint (global_frame_max_size g)"
    and "arrives (rw ws) (frame_header OPCODE_TEXT key (length payload) @ p0) cs"
    and "p0 @ concat cs = masked_payload key payload @ rest"
  shows "dispatch OPCODE_TEXT data ws g =
           (ws, g\<lparr>trace := trace g @ [TextHandlerCall (ID ws) data]\<rparr>) \<and>
         fst (readFrame ws g) = Ok () \<and>
         snd (snd (readFrame ws g)) =
           g\<lparr>trace := trace g @ [TextHandlerCall (ID ws) payload]\<rparr>"
proof -
  have vo: "valid_opcode OPCODE_TEXT" by (simp add: valid_opcode_def)
  from readFrame_frame_bytes [OF assms(1,2) vo assms(4,5,6)] obtain r p where
    rf: "readFrame ws g =
           (case dispatch OPCODE_TEXT payload
                   (ws\<lparr>rw := (rw ws)\<lparr>rbuf := r, rpending := p\<rparr>\<rparr>) g of
              (ws', g') \<Rightarrow> (Ok (), ws', g'))"
    by blast
  show ?thesis using assms(3) by (simp add: rf dispatch_text)
qed

theorem text_delivered_verbatim_witness:
  "is_open (example_ws [[0x81, 0x83, 0x37, 0xFA, 0x21, 0x3D, 0xC8, 0x04, 0xE1]]) \<and>
   maskData [0x37, 0xFA, 0x21, 0x3D] [0xFF, 0xFE, 0xC0] = Some [0xC8, 0x04, 0xE1] \<and>
   fst (readFrame (example_ws [[0x81, 0x83, 0x37, 0xFA, 0x21, 0x3D, 0xC8, 0x04, 0xE1]])
          initial_globals) = Ok () \<and>
   trace (snd (snd (readFrame (example_ws [[0x81, 0x83, 0x37, 0xFA, 0x21, 0x3D, 0xC8, 0x04, 0xE1]])
                      initial_globals)))
     = [TextHandlerCall 1 [0xFF, 0xFE, 0xC0]]"
proof -
  have m: "maskData [0x37, 0xFA, 0x21, 0x3D] [0xFF, 0xFE, 0xC0] = Some [0xC8, 0x04, 0xE1]"
    by (simp add: maskData_def)
  show ?thesis
    using text_delivered_verbatim
        [of "example_ws [[0x81, 0x83, 0x37, 0xFA, 0x21, 0x3D, 0xC8, 0x04, 0xE1]]"
          "[0xFF, 0xFE, 0xC0]" initial_globals "[0x37, 0xFA, 0x21, 0x3D]"
          "[0xC8, 0x04, 0xE1]" "[]" "[]"] m
    by (simp add: example_ws_def example_conn_def initial_globals_def
          frame_header_small arrives_def masked_payload_def OPCODE_defs)
qed

section \<open>Rejected frames\<close>

lemma readFrame_fin_clear:
  "is_open ws \<Longrightarrow> ReadByte (rw ws) = (Some b1, s1) \<Longrightarrow> b1 AND 0x80 \<noteq> 0x80 \<Longrightarrow>
     readFrame ws g = (Err FragmentedFrames, ws\<lparr>rw := s1\<rparr>, g)"
  by (simp add: readFrame_def)

lemma readFrame_rsv_set:
  "is_open ws \<Longrightarrow> ReadByte (rw ws) = (Some b1, s1) \<Longrightarrow> b1 AND 0x80 = 0x80 \<Longrightarrow>
   b1 AND 0x40 = 0x40 \<or> b1 AND 0x20 = 0x20 \<or> b1 AND 0x10 = 0x10 \<Longrightarrow>
     readFrame ws g = (Err RSVBitsSet, ws\<lparr>rw := s1\<rparr>, g)"
  by (simp add: readFrame_def)

lemma readFrame_reserved_opcode:
  "is_open ws \<Longrightarrow> ReadByte (rw ws) = (Some b1, s1) \<Longrightarrow> b1 AND 0x80 = 0x80 \<Longrightarrow>
   b1 AND 0x40 \<noteq> 0x40 \<Longrightarrow> b1 AND 0x20 \<noteq> 0x20 \<Longrightarrow> b1 AND 0x10 \<noteq> 0x10 \<Longrightarrow>
   \<not> valid_opcode (b1 AND 0x0F) \<Longrightarrow>
     readFrame ws g = (Err (UnsupportedOpcode (b1 AND 0x0F)), ws\<lparr>rw := s1\<rparr>, g)"
  by (simp add: readFrame_def valid_opcode_def Let_def)

lemma readFrame_too_large:
  "is_open ws \<Longrightarrow> ReadByte (rw ws) = (Some b1, s1) \<Longrightarrow> b1 AND 0x80 = 0x80 \<Longrightarrow>
   b1 AND 0x40 \<noteq> 0x40 \<Longrightarrow> b1 AND 0x20 \<noteq> 0x20 \<Longrightarrow> b1 AND 0x10 \<noteq> 0x10 \<Longrightarrow>
   valid_opcode (b1 AND 0x0F) \<Longrightarrow> ReadByte s1 = (Some b2, s2) \<Longrightarrow>
   read_payload_len b2 s2 = (Inr payload_len, s3) \<Longrightarrow>
   sint (global_frame_max_size g) < sint payload_len \<Longrightarrow>
     readFrame ws g = (Err (PayloadTooLarge (sint payload_len)), ws\<lparr>rw := s3\<rparr>, g)"
  by (simp add: readFrame_def valid_opcode_def Let_def word_sless_alt)

lemma readLoop_error:
  "readFrame ws g = (Err err, ws1, g1) \<Longrightarrow>
     readLoop ws g =
       (case closeWebSocket ws1 (makeStatusCodeBytes ERROR_CODE_NORMAL_CLOSURE) g1 of
          (ws2, g2) \<Rightarrow> (Ok (), ws2, g2))"
  by (simp add: readLoop.simps [of ws g])

lemma readLoop_panic:
  "readFrame ws g = (Panic, ws1, g1) \<Longrightarrow> readLoop ws g = (Panic, ws1, g1)"
  by (simp add: readLoop.simps [of ws g])

text \<open>
  Claim C7, the case the source misses. The 64-bit length field \<open>0x8000000000000000\<close>
  is above every maximum frame size, and as an \<^verbatim>\<open>int64\<close> it is negative: the test
  \<^verbatim>\<open>payload_len > global_frame_max_size\<close> lets it through and
  \<^verbatim>\<open>make([]byte, payload_len)\<close> panics. \<^verbatim>\<open>readFrame\<close> returns no error, the read loop
  does not close the connection, nothing is removed from the registry.
\<close>

theorem length_top_bit_panics:
  "fst (readFrame (example_ws [[0x82, 0x7F, 0x80, 0, 0, 0, 0, 0, 0, 0]]) initial_globals) = Panic \<and>
   fst (readLoop (example_ws [[0x82, 0x7F, 0x80, 0, 0, 0, 0, 0, 0, 0]]) initial_globals) = Panic \<and>
   is_open (fst (snd (readLoop (example_ws [[0x82, 0x7F, 0x80, 0, 0, 0, 0, 0, 0, 0]])
                        initial_globals))) \<and>
   snd (snd (readLoop (example_ws [[0x82, 0x7F, 0x80, 0, 0, 0, 0, 0, 0, 0]]) initial_globals))
     = initial_globals"
proof -
  have "\<exists>ws'. readFrame (example_ws [[0x82, 0x7F, 0x80, 0, 0, 0, 0, 0, 0, 0]]) initial_globals
          = (Panic, ws', initial_globals) \<and> is_open ws'"
    by (simp add: readFrame_def example_ws_def example_conn_def initial_globals_def
          ReadByte_def Read_def read_payload_len_def read_mask_key_def OPCODE_defs Let_def
          word_sless_alt)
  then obtain ws' where
    "readFrame (example_ws [[0x82, 0x7F, 0x80, 0, 0, 0, 0, 0, 0, 0]]) initial_globals
       = (Panic, ws', initial_globals)" and "is_open ws'"
    by blast
  then show ?thesis by (simp add: readLoop_panic)
qed

section \<open>Continuation frames\<close>

text \<open>
  A frame with FIN set, opcode 0 and an empty payload: \<^verbatim>\<open>readFrame\<close> returns nil.
  The claim that a Continuation frame always gives an error fails here.
\<close>

theorem continuation_accepted:
  "fst (readFrame (example_ws [[0x80, 0x00]]) initial_globals) = Ok ()"
  by (simp add: readFrame_def example_ws_def example_conn_def initial_globals_def
        ReadByte_def read_payload_len_def read_mask_key_def read_data.simps dispatch_def
        OPCODE_defs Let_def word_sless_alt)

text \<open>
  Claim C3, amended. On an open connection, a frame with opcode Continuation and FIN
  clear gives the error for fragmented frames. A Continuation frame with FIN set
  (RSV clear, masked or not, payload within the maximum frame size) is read and
  dropped: \<^verbatim>\<open>readFrame\<close> returns success, the globals and the trace are unchanged (no
  handler is called), nothing is written, and the connection stays open.
\<close>

theorem continuation_frames:
  assumes "is_open ws" and "\<not> conn_closed (rw ws)"
  shows "(arrives (rw ws) (b1 # c) cs \<and> b1 AND 0x0F = OPCODE_CONTINUATION \<and>
          b1 AND 0x80 \<noteq> 0x80
            \<longrightarrow> fst (readFrame ws g) = Err FragmentedFrames) \<and>
         (int (length payload) \<le> sint (global_frame_max_size g) \<and>
          arrives (rw ws) (frame_header OPCODE_CONTINUATION key (length payload) @ p0) cs' \<and>
          p0 @ concat cs' = masked_payload key payload @ rest
            \<longrightarrow> (case readFrame ws g of
                   (res, ws', g') \<Rightarrow>
                     res = Ok () \<and> g' = g \<and> is_open ws' \<and>
                     sent (rw ws') = sent (rw ws) \<and> wbuf (rw ws') = wbuf (rw ws)))"
proof (intro conjI impI)
  assume a: "arrives (rw ws) (b1 # c) cs \<and> b1 AND 0x0F = OPCODE_CONTINUATION \<and>
             b1 AND 0x80 \<noteq> 0x80"
  then have "ReadByte (rw ws) = (Some b1, (rw ws)\<lparr>rbuf := c, rpending := cs\<rparr>)"
    using ReadByte_arrives [OF assms(2)] by blast
  from readFrame_fin_clear [OF assms(1) this] a
  show "fst (readFrame ws g) = Err FragmentedFrames" by simp
next
  assume a: "int (length payload) \<le> sint (global_frame_max_size g) \<and>
          arrives (rw ws) (frame_header OPCODE_CONTINUATION key (length payload) @ p0) cs' \<and>
          p0 @ concat cs' = masked_payload key payload @ rest"
  have vo: "valid_opcode OPCODE_CONTINUATION" by (simp add: valid_opcode_def)
  from a readFrame_frame_bytes [OF assms(1,2) vo, of payload g key p0 cs' rest] obtain r p where
    rf: "readFrame ws g =
           (case dispatch OPCODE_CONTINUATION payload
                   (ws\<lparr>rw := (rw ws)\<lparr>rbuf := r, rpending := p\<rparr>\<rparr>) g of
              (ws', g') \<Rightarrow> (Ok (), ws', g'))"
    by blast
  show "case readFrame ws g of
          (res, ws', g') \<Rightarrow>
            res = Ok () \<and> g' = g \<and> is_open ws' \<and>
            sent (rw ws') = sent (rw ws) \<and> wbuf (rw ws') = wbuf (rw ws)"
    using assms(1) by (simp add: rf dispatch_def OPCODE_defs)
qed

theorem continuation_frames_witness:
  "is_open (example_ws [[0x00, 0x00]]) \<and>
   fst (readFrame (example_ws [[0x00, 0x00]]) initial_globals) = Err FragmentedFrames \<and>
   is_open (example_ws [[0x80, 0x02, 0x68, 0x69]]) \<and>
   (case readFrame (example_ws [[0x80, 0x02, 0x68, 0x69]]) initial_globals of
      (res, ws', g') \<Rightarrow>
        res = Ok () \<and> g' = initial_globals \<and> is_open ws' \<and>
        sent (rw ws') = [] \<and> wbuf (rw ws') = [])"
  using continuation_frames [where ws = "example_ws [[0x00, 0x00]]" and ?b1.0 = 0 and c = "[0]"
      and cs = "[]" and g = initial_globals and payload = "[]" and key = "[]" and ?p0.0 = "[]"
      and cs' = "[]" and rest = "[]"]
    continuation_frames [where ws = "example_ws [[0x80, 0x02, 0x68, 0x69]]" and ?b1.0 = "0x80"
      and c = "[2, 0x68, 0x69]" and cs = "[]" and g = initial_globals
      and payload = "[0x68, 0x69]" and key = "[]" and ?p0.0 = "[0x68, 0x69]" and cs' = "[]"
      and rest = "[]"]
  by (simp add: example_ws_def example_conn_def initial_globals_def arrives_def
        frame_header_small masked_payload_def OPCODE_defs)

section \<open>Failed upgrades\<close>

lemma incrementGlobalWebsocketCount_frame:
  "incrementGlobalWebsocketCount others g = (ok, g') \<Longrightarrow>
     g' = g\<lparr>global_websocket_count := global_websocket_count g'\<rparr>"
proof (induction others arbitrary: g)
  case Nil
  then show ?case by (auto simp: Let_def split: if_splits)
next
  case (Cons a others)
  obtain at_swap at_load where a: "a = (at_swap, at_load)" by (cases a)
  show ?case
  proof (cases "global_max_websockets g \<le>s global_websocket_count g \<or>
                at_swap = global_websocket_count g")
    case True
    with Cons.prems a show ?thesis by (auto simp: Let_def split: if_splits)
  next
    case False
    with Cons.prems a have
      "incrementGlobalWebsocketCount others (g\<lparr>global_websocket_count := at_load\<rparr>) = (ok, g')"
      by (simp add: Let_def)
    from Cons.IH [OF this] show ?thesis by simp
  qed
qed

lemma makeWebSocket_error:
  assumes "makeWebSocket others w r g = (Err err, g')"
  shows "global_id_gen g' = global_id_gen g \<and> global_websockets g' = global_websockets g \<and>
         trace g' = trace g"
proof -
  obtain ok g1 where i: "incrementGlobalWebsocketCount others g = (ok, g1)"
    by (cases "incrementGlobalWebsocketCount others g")
  from incrementGlobalWebsocketCount_frame [OF i] have
    "global_id_gen g1 = global_id_gen g \<and> global_websockets g1 = global_websockets g \<and>
     trace g1 = trace g"
    by (metis (no_types, lifting) globals.select_convs(1,3,6) globals.surjective
        globals.update_convs(2))
  with assms i show ?thesis
    by (auto simp: makeWebSocket_def validateProtocolHeader_def validateExtensionsHeader_def
          Let_def split: if_splits sum.splits bool.splits response_writer.splits)
qed

text \<open>
  Claim C4, the path the source misses. The request is valid, a slot is free and the
  hijack succeeds, but the peer is gone and the flush of the 101 response fails.
  \<^verbatim>\<open>Upgrade\<close> returns the error; the id 1 has been taken, the connection is stored in
  the registry under it, and the admission counter stays at 1. No read loop was
  started, so nothing will ever close this connection.
\<close>

theorem failed_handshake_stays_registered:
  "(case Upgrade [] (Hijacks ((example_conn [])\<lparr>broken := True\<rparr>)) example_request
           initial_globals of
      (res, g') \<Rightarrow>
        res = Err StreamError \<and> global_id_gen g' = 1 \<and> global_websocket_count g' = 1 \<and>
        global_websockets g' 1 \<noteq> None \<and> trace g' = [RegistryStore 1])"
  by (simp add: Upgrade_def makeWebSocket_def example_request_def example_conn_def
        initial_globals_def ProtoAtLeast_def validateProtocolHeader_def
        validateExtensionsHeader_def sendWebSocketHandshakeResponse_def Fprintf_def Write_def
        Flush_def bytes_of_string_def CRLF_def Let_def word_sle_eq)

section \<open>The handshake response\<close>

lemmas sha1_eval = sha1_def sha1_pad_def be_bytes64_def be_bytes32_def sha1_blocks.simps
  sha1_block_def schedule.simps add32_def rotl32_def not32_def sha1_f_def sha1_k_def
  zeros.simps

text \<open>The test vector of FIPS 180 for the message \<open>abc\<close>.\<close>

lemma sha1_abc:
  "sha1 (map of_char ''abc'') =
     [0xA9, 0x99, 0x3E, 0x36, 0x47, 0x06, 0x81, 0x6A, 0xBA, 0x3E,
      0x25, 0x71, 0x78, 0x50, 0xC2, 0x6C, 0x9C, 0xD0, 0xD8, 0x9D]"
  by (simp add: sha1_eval)

lemma acceptKeyHash_sample:
  "acceptKeyHash ''dGhlIHNhbXBsZSBub25jZQ=='' = ''s3pPLMBiTxaQ9kYGzzhZRbK+xOo=''"
  by (simp add: acceptKeyHash_def sha1_eval base64_alphabet_def)

lemma bytes_of_string_append:
  "bytes_of_string (a @ b) = bytes_of_string a @ bytes_of_string b"
  by (simp add: bytes_of_string_def)

lemma Flush_ok:
  "Flush s = (True, s') \<Longrightarrow> wbuf s \<noteq> [] \<Longrightarrow>
     s' = s\<lparr>sent := sent s @ wbuf s, wbuf := []\<rparr>"
  by (auto simp: Flush_def split: if_splits)

lemma Write_snd:
  "snd (Write p s) = (if werr s then s else s\<lparr>wbuf := wbuf s @ p\<rparr>)"
  by (simp add: Write_def)

lemma sendWebSocketHandshakeResponse_plain:
  assumes "sendWebSocketHandshakeResponse ws = (True, ws')"
    and "protocol ws = []" and "extensions ws = []"
  shows "sent (rw ws') =
           sent (rw ws) @ wbuf (rw ws) @
           bytes_of_string
             (''HTTP/1.1 101 Switching Protocols'' @ CRLF @
              ''Upgrade: websocket'' @ CRLF @
              ''Connection: Upgrade'' @ CRLF @
              ''Sec-WebSocket-Accept: '' @ acceptKeyHash (client_key ws) @ CRLF @
              CRLF)"
proof -
  let ?l1 = "bytes_of_string (''HTTP/1.1 101 Switching Protocols'' @ CRLF)"
  let ?l2 = "bytes_of_string (''Upgrade: websocket'' @ CRLF)"
  let ?l3 = "bytes_of_string (''Connection: Upgrade'' @ CRLF)"
  let ?l4 = "bytes_of_string (''Sec-WebSocket-Accept: '' @ acceptKeyHash (client_key ws) @ CRLF)"
  let ?l5 = "bytes_of_string CRLF"
  let ?s7 = "snd (Write ?l5 (snd (Write ?l4 (snd (Write ?l3 (snd (Write ?l2
               (snd (Write ?l1 (rw ws))))))))))"
  from assms have fl: "Flush ?s7 = (True, rw ws')"
    by (auto simp: sendWebSocketHandshakeResponse_def Fprintf_def Let_def split: prod.splits)
  have ne: "?l5 \<noteq> []" by (simp add: bytes_of_string_def CRLF_def)
  show ?thesis
  proof (cases "werr (rw ws)")
    case True
    then have "?s7 = rw ws" by (simp add: Write_snd)
    with fl True show ?thesis by (simp add: Flush_def)
  next
    case False
    then have s7: "?s7 = (rw ws)\<lparr>wbuf := wbuf (rw ws) @ ?l1 @ ?l2 @ ?l3 @ ?l4 @ ?l5\<rparr>"
      by (simp add: Write_snd)
    then have "wbuf ?s7 \<noteq> []" using ne by simp
    from Flush_ok [OF fl this] s7
    have "sent (rw ws') = sent (rw ws) @ wbuf (rw ws) @ ?l1 @ ?l2 @ ?l3 @ ?l4 @ ?l5"
      by simp
    then show ?thesis by (simp only: bytes_of_string_append append_assoc)
  qed
qed

lemma makeWebSocket_ok:
  assumes "makeWebSocket others w r g = (Ok ws, g')"
  shows "\<exists>conn. w = Hijacks conn \<and> rw ws = conn \<and> protocol ws = [] \<and> extensions ws = [] \<and>
           client_key ws = Header r ''Sec-WebSocket-Key'' \<and> is_open ws"
  using assms
  by (auto simp: makeWebSocket_def validateProtocolHeader_def validateExtensionsHeader_def
        Let_def split: if_splits sum.splits bool.splits response_writer.splits prod.splits)

text \<open>
  Claim C1. When \<^verbatim>\<open>Upgrade\<close> succeeds, the connection came from the hijack, and the
  bytes sent on it are what was already there followed by exactly: the status line
  \<open>HTTP/1.1 101 Switching Protocols\<close>, the headers \<open>Upgrade: websocket\<close>,
  \<open>Connection: Upgrade\<close> and \<open>Sec-WebSocket-Accept\<close>, and an empty line, each line
  ended by CR LF. The accept value is the base64 text of the SHA-1 digest of the
  client key followed by the GUID, and for the key \<open>dGhlIHNhbXBsZSBub25jZQ==\<close> it is
  \<open>s3pPLMBiTxaQ9kYGzzhZRbK+xOo=\<close>.
\<close>

theorem handshake_response:
  assumes "Upgrade others w r g = (Ok ws, g')"
  shows "(case w of
            Hijacks conn \<Rightarrow>
              sent (rw ws) =
                sent conn @ wbuf conn @
                bytes_of_string
                  (''HTTP/1.1 101 Switching Protocols'' @ CRLF @
                   ''Upgrade: websocket'' @ CRLF @
                   ''Connection: Upgrade'' @ CRLF @
                   ''Sec-WebSocket-Accept: '' @
                     base64 (sha1 (map of_char (Header r ''Sec-WebSocket-Key'' @
                                                ''258EAFA5-E914-47DA-95CA-C5AB0DC85B11''))) @
                     CRLF @
                   CRLF)
          | _ \<Rightarrow> False) \<and>
         acceptKeyHash ''dGhlIHNhbXBsZSBub25jZQ=='' = ''s3pPLMBiTxaQ9kYGzzhZRbK+xOo=''"
proof -
  from assms obtain ws0 where m: "makeWebSocket others w r g = (Ok ws0, g')"
    and h: "sendWebSocketHandshakeResponse ws0 = (True, ws)"
    by (auto simp: Upgrade_def split: prod.splits result.splits bool.splits)
  from makeWebSocket_ok [OF m] obtain conn where w: "w = Hijacks conn" and
    f: "rw ws0 = conn" "protocol ws0 = []" "extensions ws0 = []"
       "client_key ws0 = Header r ''Sec-WebSocket-Key''"
    by blast
  have a: "acceptKeyHash (Header r ''Sec-WebSocket-Key'') =
             base64 (sha1 (map of_char (Header r ''Sec-WebSocket-Key'' @
                                        ''258EAFA5-E914-47DA-95CA-C5AB0DC85B11'')))"
    by (simp only: acceptKeyHash_def Let_def)
  have "sent (rw ws) =
          sent conn @ wbuf conn @
          bytes_of_string
            (''HTTP/1.1 101 Switching Protocols'' @ CRLF @
             ''Upgrade: websocket'' @ CRLF @
             ''Connection: Upgrade'' @ CRLF @
             ''Sec-WebSocket-Accept: '' @
               base64 (sha1 (map of_char (Header r ''Sec-WebSocket-Key'' @
                                          ''258EAFA5-E914-47DA-95CA-C5AB0DC85B11''))) @
               CRLF @
             CRLF)"
    using sendWebSocketHandshakeResponse_plain [OF h f(2,3)] unfolding f(1,4) a .
  then show ?thesis
    unfolding w by (simp only: response_writer.case acceptKeyHash_sample simp_thms)
qed

theorem handshake_response_witness:
  "(case Upgrade [] (Hijacks (example_conn [])) example_request initial_globals of
      (Ok ws, g') \<Rightarrow>
        sent (rw ws) =
          bytes_of_string
            (''HTTP/1.1 101 Switching Protocols'' @ CRLF @
             ''Upgrade: websocket'' @ CRLF @
             ''Connection: Upgrade'' @ CRLF @
             ''Sec-WebSocket-Accept: s3pPLMBiTxaQ9kYGzzhZRbK+xOo='' @ CRLF @
             CRLF)
    | _ \<Rightarrow> False)"
proof -
  let ?ws0 = "\<lparr>ID = 1, rw = example_conn [], protocol = [], extensions = [],
               client_key = ''dGhlIHNhbXBsZSBub25jZQ=='', is_open = True,
               ReceiveBinaryHandler = False, ReceiveTextHandler = False,
               ClosedHandler = False\<rparr>"
  have m: "\<exists>g'. makeWebSocket [] (Hijacks (example_conn [])) example_request initial_globals
          = (Ok ?ws0, g')"
    by (simp add: makeWebSocket_def example_request_def initial_globals_def ProtoAtLeast_def
        validateProtocolHeader_def validateExtensionsHeader_def Let_def word_sle_eq)
  have "fst (sendWebSocketHandshakeResponse ?ws0) = True"
    by (simp add: sendWebSocketHandshakeResponse_def Fprintf_def Write_def Flush_def Let_def
          example_conn_def bytes_of_string_def CRLF_def split: prod.splits)
  with m have "\<exists>ws g'. Upgrade [] (Hijacks (example_conn [])) example_request initial_globals
          = (Ok ws, g')"
    by (auto simp: Upgrade_def split: prod.splits bool.splits)
  then obtain ws g' where
    u: "Upgrade [] (Hijacks (example_conn [])) example_request initial_globals = (Ok ws, g')"
    by blast
  have k: "Header example_request ''Sec-WebSocket-Key'' = ''dGhlIHNhbXBsZSBub25jZQ==''"
    by (simp add: example_request_def)
  have e: "sent (example_conn []) = [] \<and> wbuf (example_conn []) = []"
    by (simp add: example_conn_def)
  from handshake_response [OF u] have
    "sent (rw ws) =
       sent (example_conn []) @ wbuf (example_conn []) @
       bytes_of_string
         (''HTTP/1.1 101 Switching Protocols'' @ CRLF @
          ''Upgrade: websocket'' @ CRLF @
          ''Connection: Upgrade'' @ CRLF @
          ''Sec-WebSocket-Accept: '' @
             acceptKeyHash (Header example_request ''Sec-WebSocket-Key'') @ CRLF @
          CRLF)"
    by (simp only: response_writer.case acceptKeyHash_def Let_def)
  moreover from handshake_response [OF u] have
    "acceptKeyHash ''dGhlIHNhbXBsZSBub25jZQ=='' = ''s3pPLMBiTxaQ9kYGzzhZRbK+xOo=''"
    by (rule conjunct2)
  ultimately have
    "sent (rw ws) =
       bytes_of_string
         (''HTTP/1.1 101 Switching Protocols'' @ CRLF @
          ''Upgrade: websocket'' @ CRLF @
          ''Connection: Upgrade'' @ CRLF @
          ''Sec-WebSocket-Accept: '' @ ''s3pPLMBiTxaQ9kYGzzhZRbK+xOo='' @ CRLF @
          CRLF)"
    by (simp only: k e append_Nil)
  moreover have "''Sec-WebSocket-Accept: '' @ ''s3pPLMBiTxaQ9kYGzzhZRbK+xOo='' @ CRLF @ CRLF
      = ''Sec-WebSocket-Accept: s3pPLMBiTxaQ9kYGzzhZRbK+xOo='' @ CRLF @ CRLF"
    by simp
  ultimately show ?thesis
    by (simp only: u prod.case result.case)
qed

end
